theory Spec2Isabelle
  imports Main "HOL-Library.Signed_Division" "HOL-Library.Word"
begin

section \<open>Go primitives used by the pipeline\<close>

text \<open>
  Go strings are byte sequences and \<open>len\<close> counts bytes, so a Go string is a
  \<^typ>\<open>string\<close> (a list of 8-bit characters). Go's \<open>int\<close> is modelled as
  \<^typ>\<open>int\<close>: every index the chunker computes is bounded by twice the length of
  the text, which is far below \<open>2 ^ 63\<close>, so no operation wraps. A run-time panic
  is a value of its own, never an ordinary error return.
\<close>

datatype go_panic = SliceBoundsOutOfRange | IndexOutOfRange | NilPointerDereference

text \<open>The slice expression \<open>s[lo:hi]\<close>: it panics unless \<open>0 \<le> lo \<le> hi \<le> len(s)\<close>.\<close>

definition slice :: "'a list \<Rightarrow> int \<Rightarrow> int \<Rightarrow> go_panic + 'a list" where
  "slice s lo hi =
     (if 0 \<le> lo \<and> lo \<le> hi \<and> hi \<le> int (length s)
      then Inr (take (nat (hi - lo)) (drop (nat lo) s))
      else Inl SliceBoundsOutOfRange)"

text \<open>The slice expression \<open>s[lo:]\<close>.\<close>

definition slice_from :: "'a list \<Rightarrow> int \<Rightarrow> go_panic + 'a list" where
  "slice_from s lo = slice s lo (int (length s))"

text \<open>
  \<open>strings.LastIndex(s, sep)\<close>: the index of the last instance of \<open>sep\<close> in
  \<open>s\<close>, or \<open>-1\<close> when there is none. The candidates are scanned from the highest
  start position downwards.
\<close>

fun last_index_from :: "string \<Rightarrow> string \<Rightarrow> nat \<Rightarrow> int" where
  "last_index_from s sep 0 = (if take (length sep) s = sep then 0 else - 1)"
| "last_index_from s sep (Suc i) =
     (if take (length sep) (drop (Suc i) s) = sep then int (Suc i)
      else last_index_from s sep i)"

definition LastIndex :: "string \<Rightarrow> string \<Rightarrow> int" where
  "LastIndex s sep =
     (if length s < length sep then - 1
      else last_index_from s sep (length s - length sep))"

section \<open>The chunker (package utils, ChunkText)\<close>

text \<open>
  \<open>searchRange := chunkSize / 5; if searchRange < 20 { searchRange = 20 }\<close>.
  Go's integer division truncates towards zero.
\<close>

definition searchRange :: "int \<Rightarrow> int" where
  "searchRange chunkSize = (let r = chunkSize sdiv 5 in if r < 20 then 20 else r)"

text \<open>The separators in the order the loop tries them: \<open>"\n\n", "\n", ". ", " "\<close>.\<close>

definition separators :: "string list" where
  "separators = [[CHR 0x0A, CHR 0x0A], [CHR 0x0A], ''. '', '' '']"

text \<open>
  The inner \<open>for _, sep := range ...\<close> loop over the window: the first separator
  that occurs in the window decides, and the result is \<open>idx + len(sep)\<close>, the offset
  of the break point within the window. \<open>None\<close> is \<open>found == false\<close>.
\<close>

fun find_sep :: "string \<Rightarrow> string list \<Rightarrow> int option" where
  "find_sep w [] = None"
| "find_sep w (sep # seps) =
     (let idx = LastIndex w sep
      in if idx \<noteq> - 1 then Some (idx + int (length sep)) else find_sep w seps)"

text \<open>
  One pass through the body of the outer loop, entered with \<open>start < len(text)\<close>.
  The result is the chunk appended in this pass together with the next value of
  \<open>start\<close>; \<open>None\<close> in its place is the \<open>break\<close> after the last chunk.
\<close>

definition chunk_step :: "string \<Rightarrow> int \<Rightarrow> int \<Rightarrow> int \<Rightarrow> go_panic + string \<times> int option" where
  "chunk_step text chunkSize overlap start =
     (let endpos = start + chunkSize in
      if endpos \<ge> int (length text) then
        (case slice_from text start of
           Inl e \<Rightarrow> Inl e
         | Inr c \<Rightarrow> Inr (c, None))
      else
        (case slice text (start + chunkSize - searchRange chunkSize) endpos of
           Inl e \<Rightarrow> Inl e
         | Inr w \<Rightarrow>
             (let breakPoint =
                    (case find_sep w separators of
                       Some off \<Rightarrow> start + chunkSize - searchRange chunkSize + off
                     | None \<Rightarrow> endpos)
              in case slice text start breakPoint of
                   Inl e \<Rightarrow> Inl e
                 | Inr c \<Rightarrow>
                     (let start1 = breakPoint - overlap;
                          start2 = (if start1 < 0 then 0 else start1);
                          start3 = (if start2 \<ge> breakPoint then breakPoint else start2)
                      in Inr (c, Some start3)))))"

text \<open>
  The outer loop \<open>for start < len(text) { ... }\<close>. Nothing in the source bounds the
  number of passes, so the model counts them down: \<open>None\<close> means that the loop is
  still running after \<open>fuel\<close> passes.
\<close>

fun chunk_loop ::
  "nat \<Rightarrow> string \<Rightarrow> int \<Rightarrow> int \<Rightarrow> int \<Rightarrow> string list \<Rightarrow> (go_panic + string list) option" where
  "chunk_loop 0 text chunkSize overlap start chunks = None"
| "chunk_loop (Suc fuel) text chunkSize overlap start chunks =
     (if start < int (length text) then
        (case chunk_step text chunkSize overlap start of
           Inl e \<Rightarrow> Some (Inl e)
         | Inr (c, None) \<Rightarrow> Some (Inr (chunks @ [c]))
         | Inr (c, Some start') \<Rightarrow>
             chunk_loop fuel text chunkSize overlap start' (chunks @ [c]))
      else Some (Inr chunks))"

text \<open>\<open>ChunkText(text, chunkSize, overlap)\<close>; Go's \<open>nil\<close> slice is the empty list.\<close>

definition ChunkText ::
  "nat \<Rightarrow> string \<Rightarrow> int \<Rightarrow> int \<Rightarrow> (go_panic + string list) option" where
  "ChunkText fuel text chunkSize overlap =
     (if length text = 0 then Some (Inr [])
      else if int (length text) \<le> chunkSize then Some (Inr [text])
      else chunk_loop fuel text chunkSize overlap 0 [])"

section \<open>Errors, calls and the world the services act on\<close>

text \<open>
  A Go \<open>error\<close> built by \<open>fmt.Errorf\<close> is its message (the constant part of the
  format string), with the wrapped error when the format ends in \<open>%w\<close>. A panic and
  a call that does not return are kept apart from error returns: they pass through
  every caller unchanged.
\<close>

datatype error = Errorf string | Wrapf string error | Panic go_panic | Diverged

fun wrap :: "string \<Rightarrow> error \<Rightarrow> error" where
  "wrap msg (Panic p) = Panic p"
| "wrap msg Diverged = Diverged"
| "wrap msg e = Wrapf msg e"

text \<open>
  A \<open>float32\<close> is its IEEE 754 bit pattern; the services store and forward
  embeddings and never compute with them. Go's \<open>nil\<close> slice is the empty list.
\<close>

type_synonym float32 = "32 word"

text \<open>\<open>model.Document\<close>.\<close>

record Document =
  ID :: string
  UserID :: string
  Filename :: string
  FileType :: string
  FileSize :: int
  FileHash :: string
  StoragePath :: string
  TotalChunks :: int
  UploadDate :: nat

text \<open>
  An \<open>interface{}\<close> value of a payload, as far as the services build or read one.
\<close>

datatype any = AString string | AnInt int | ANil

text \<open>\<open>model.VectorPoint\<close>; the payload map is kept as an association list.\<close>

record VectorPoint =
  PointID :: string
  Vector :: "float32 list"
  Payload :: "(string \<times> any) list"

text \<open>
  \<open>multipart.FileHeader\<close>: the declared name and size, and the bytes that
  \<open>Open\<close> followed by \<open>io.ReadAll\<close> delivers.
\<close>

record FileHeader =
  HeaderFilename :: string
  Size :: int
  Content :: string

text \<open>
  What \<open>httpClient.Do\<close> hands back from the embeddings endpoint: the status code
  and the body as \<open>json.Decode\<close> reads it into \<open>EmbeddingResponse.Data\<close>, a list
  of (embedding, index) entries; \<open>None\<close> is a body that does not decode.
\<close>

record http_response =
  StatusCode :: int
  Data :: "(float32 list \<times> int) list option"

text \<open>
  The same for the chat completions endpoint: the body is read into the message
  contents of \<open>ChatCompletionResponse.Choices\<close>.
\<close>

record chat_response =
  ChatStatusCode :: int
  Choices :: "string list option"

text \<open>
  Every call a service makes on a collaborator is recorded, in order: the file handle,
  the HTTP client, the storage driver, the database, the vector index client, the
  vector repository and the logger.
\<close>

datatype event =
    FileOpen string
  | FileReadAll string
  | HTTPPostEmbeddings "string list"
  | Sleep nat
  | HTTPPostChat string string
  | StorageUploadFile string string
  | StorageDeleteFile string
  | DBInsertDocument string string
  | DBSelectDocument string
  | DBDeleteDocument string
  | DBInsertQueryHistory string string string
  | QdrantList
  | QdrantCreate string nat
  | VectorInsertVectors string "VectorPoint list"
  | VectorSearch string "float32 list" int
  | VectorDeleteByDocumentID string string
  | LogError string

text \<open>
  The environment: everything outside the repository that decides how a call ends.
  \<open>fault\<close> says whether the call just recorded fails for a reason of the
  infrastructure (connection lost, disk full, any constraint of the database that is
  not modelled below). The two APIs answer the \<open>n\<close>-th HTTP request with a pair
  \<open>(resp, err)\<close>, as \<open>Do\<close> returns it. \<open>uuid_generate_v4\<close> is the database's
  default for \<open>documents.id\<close>. \<open>ToLower\<close> and \<open>Sum256\<close> are the library functions
  \<open>strings.ToLower\<close> and \<open>sha256.Sum256\<close> followed by \<open>hex.EncodeToString\<close>.
\<close>

record env =
  fault :: "event list \<Rightarrow> bool"
  embeddings_api :: "nat \<Rightarrow> string list \<Rightarrow> http_response option \<times> error option"
  chat_api :: "nat \<Rightarrow> string \<Rightarrow> string \<Rightarrow> chat_response option \<times> error option"
  uuid_generate_v4 :: "nat \<Rightarrow> string"
  ToLower :: "string \<Rightarrow> string"
  Sum256 :: "string \<Rightarrow> string"

text \<open>
  The state: the rows of \<open>documents\<close> and \<open>query_history\<close> (user, question,
  answer), the stored objects by key, the names of the collections of the vector
  index, the number of HTTP requests and of rows inserted so far, and the calls made.
\<close>

record world =
  documents :: "Document list"
  query_history :: "(string \<times> string \<times> string) list"
  objects :: "string \<rightharpoonup> string"
  collections :: "string list"
  http_calls :: nat
  db_inserts :: nat
  trace :: "event list"

definition call :: "env \<Rightarrow> event \<Rightarrow> world \<Rightarrow> bool \<times> world" where
  "call env ev w = (fault env (trace w @ [ev]), w\<lparr>trace := trace w @ [ev]\<rparr>)"

definition logged :: "event \<Rightarrow> world \<Rightarrow> world" where
  "logged ev w = w\<lparr>trace := trace w @ [ev]\<rparr>"

text \<open>\<open>strconv\<close>'s decimal rendering, as \<open>%d\<close> prints a non-negative \<open>int\<close>.\<close>

function Itoa :: "nat \<Rightarrow> string" where
  "Itoa n = (if n < 10 then [char_of (48 + n)] else Itoa (n div 10) @ [char_of (48 + n mod 10)])"
  by pat_completeness auto
termination
  by (relation "measure id") auto

declare Itoa.simps [simp del]

text \<open>
  \<open>filepath.Ext\<close>: the suffix beginning at the final dot in the final element of the
  path, empty if there is no dot. The scan runs from the last byte backwards and stops
  at a path separator.
\<close>

fun ext_scan :: "string \<Rightarrow> string \<Rightarrow> string" where
  "ext_scan [] suffix = []"
| "ext_scan (c # cs) suffix =
     (if c = CHR ''/'' then []
      else if c = CHR ''.'' then c # suffix
      else ext_scan cs (c # suffix))"

definition Ext :: "string \<Rightarrow> string" where
  "Ext path = ext_scan (rev path) []"

section \<open>The document repository (package repository, DocumentRepository)\<close>

text \<open>
  \<open>Create\<close>: the \<open>INSERT ... RETURNING id, upload_date\<close>. The insert is rejected
  when a row with the same \<open>(user_id, file_hash)\<close> exists (the constraint
  \<open>unique_user_file_hash\<close> of the migration) or when the generated id is taken (the
  primary key). On success the row, with the id and date the database chose, is
  written back into the caller's document.
\<close>

definition DocumentRepository_Create ::
  "env \<Rightarrow> world \<Rightarrow> Document \<Rightarrow> (error option \<times> Document) \<times> world" where
  "DocumentRepository_Create env w doc =
     (let (failed, w1) = call env (DBInsertDocument (UserID doc) (FileHash doc)) w;
          newid = uuid_generate_v4 env (db_inserts w1)
      in if failed
            \<or> list_ex (\<lambda>d. UserID d = UserID doc \<and> FileHash d = FileHash doc) (documents w1)
            \<or> list_ex (\<lambda>d. ID d = newid) (documents w1)
         then ((Some (Wrapf ''failed to create document'' (Errorf ''sql'')), doc), w1)
         else (let doc' = doc\<lparr>ID := newid, UploadDate := db_inserts w1\<rparr>
               in ((None, doc'),
                   w1\<lparr>documents := documents w1 @ [doc'], db_inserts := Suc (db_inserts w1)\<rparr>)))"

text \<open>\<open>GetByID\<close>: \<open>sql.ErrNoRows\<close> becomes "document not found".\<close>

definition DocumentRepository_GetByID ::
  "env \<Rightarrow> world \<Rightarrow> string \<Rightarrow> (error + Document) \<times> world" where
  "DocumentRepository_GetByID env w ident =
     (let (failed, w1) = call env (DBSelectDocument ident) w
      in if failed then (Inl (Wrapf ''failed to get document'' (Errorf ''sql'')), w1)
         else (case find (\<lambda>d. ID d = ident) (documents w1) of
                 None \<Rightarrow> (Inl (Errorf ''document not found''), w1)
               | Some doc \<Rightarrow> (Inr doc, w1)))"

text \<open>\<open>Delete\<close>: no row affected is the error "document not found".\<close>

definition DocumentRepository_Delete ::
  "env \<Rightarrow> world \<Rightarrow> string \<Rightarrow> error option \<times> world" where
  "DocumentRepository_Delete env w ident =
     (let (failed, w1) = call env (DBDeleteDocument ident) w
      in if failed then (Some (Wrapf ''failed to delete document'' (Errorf ''sql'')), w1)
         else if \<not> list_ex (\<lambda>d. ID d = ident) (documents w1)
              then (Some (Errorf ''document not found''), w1)
         else (None, w1\<lparr>documents := filter (\<lambda>d. ID d \<noteq> ident) (documents w1)\<rparr>))"

definition SaveQueryHistory ::
  "env \<Rightarrow> world \<Rightarrow> string \<Rightarrow> string \<Rightarrow> string \<Rightarrow> error option \<times> world" where
  "SaveQueryHistory env w userID question answer =
     (let (failed, w1) = call env (DBInsertQueryHistory userID question answer) w
      in if failed then (Some (Wrapf ''failed to save query history'' (Errorf ''sql'')), w1)
         else (None, w1\<lparr>query_history := query_history w1 @ [(userID, question, answer)]\<rparr>))"

section \<open>The storage driver (package storage)\<close>

text \<open>
  \<open>UploadFile\<close> and \<open>DeleteFile\<close> of \<open>LocalStorage\<close>; the S3 client's are the
  same up to the wording of its errors. Deleting a key that is not there is not an
  error (\<open>os.IsNotExist\<close> is answered with \<open>nil\<close>).
\<close>

definition UploadFile :: "env \<Rightarrow> world \<Rightarrow> string \<Rightarrow> string \<Rightarrow> error option \<times> world" where
  "UploadFile env w key content =
     (let (failed, w1) = call env (StorageUploadFile key content) w
      in if failed then (Some (Wrapf ''failed to write file'' (Errorf ''os'')), w1)
         else (None, w1\<lparr>objects := (objects w1)(key \<mapsto> content)\<rparr>))"

definition DeleteFile :: "env \<Rightarrow> world \<Rightarrow> string \<Rightarrow> error option \<times> world" where
  "DeleteFile env w key =
     (let (failed, w1) = call env (StorageDeleteFile key) w
      in if failed then (Some (Wrapf ''failed to delete file'' (Errorf ''os'')), w1)
         else (None, w1\<lparr>objects := (objects w1)(key := None)\<rparr>))"

section \<open>The vector repository (package repository, VectorRepository)\<close>

definition GetCollectionName :: "string \<Rightarrow> string" where
  "GetCollectionName userID = ''user_'' @ userID @ ''_docs''"

text \<open>
  \<open>EnsureCollection\<close>: \<open>CollectionExists\<close> lists the collections and looks for the
  name; \<open>CreateCollection\<close> is called only when it is absent.
\<close>

definition EnsureCollection :: "env \<Rightarrow> world \<Rightarrow> string \<Rightarrow> nat \<Rightarrow> error option \<times> world" where
  "EnsureCollection env w userID vectorSize =
     (let collectionName = GetCollectionName userID;
          (failed, w1) = call env QdrantList w
      in if failed then (Some (Wrapf ''failed to list collections'' (Errorf ''grpc'')), w1)
         else if collectionName \<notin> set (collections w1) then
           (let (failed2, w2) = call env (QdrantCreate collectionName vectorSize) w1
            in if failed2 then (Some (Wrapf ''failed to create collection'' (Errorf ''grpc'')), w2)
               else (None, w2\<lparr>collections := collections w2 @ [collectionName]\<rparr>))
         else (None, w1))"

text \<open>
  \<open>InsertVectors\<close>, \<open>Search\<close> and \<open>DeleteByDocumentID\<close> as the source has them:
  each discards its arguments (the converted points included) and returns its
  "not fully implemented yet" error without calling the vector index.
\<close>

definition InsertVectors ::
  "env \<Rightarrow> world \<Rightarrow> string \<Rightarrow> VectorPoint list \<Rightarrow> error option \<times> world" where
  "InsertVectors env w userID points =
     (Some (Errorf ''insert vectors not fully implemented yet''),
      logged (VectorInsertVectors userID points) w)"

definition Search ::
  "env \<Rightarrow> world \<Rightarrow> string \<Rightarrow> float32 list \<Rightarrow> int \<Rightarrow> (error + VectorPoint list) \<times> world" where
  "Search env w userID vector limit =
     (Inl (Errorf ''search not fully implemented yet''),
      logged (VectorSearch userID vector limit) w)"

definition DeleteByDocumentID ::
  "env \<Rightarrow> world \<Rightarrow> string \<Rightarrow> string \<Rightarrow> error option \<times> world" where
  "DeleteByDocumentID env w userID documentID =
     (Some (Errorf ''delete by document ID not fully implemented yet''),
      logged (VectorDeleteByDocumentID userID documentID) w)"

section \<open>The embedding service (package service, EmbeddingService)\<close>

text \<open>
  The retry loop of \<open>generateBatch\<close>, \<open>for attempt := 0; attempt < maxRetries;
  attempt++\<close>: \<open>remaining\<close> is \<open>maxRetries - attempt\<close> and \<open>resp\<close> is the variable
  declared before the loop. The result is \<open>resp\<close> as the loop leaves it, by
  \<open>break\<close> or by running out of attempts, or the error of an early \<open>return\<close>.
  With \<open>err == nil\<close> and a \<open>nil\<close> response, reading \<open>resp.StatusCode\<close> panics.
\<close>

fun retry_loop ::
  "env \<Rightarrow> string list \<Rightarrow> nat \<Rightarrow> nat \<Rightarrow> http_response option \<Rightarrow> world
   \<Rightarrow> (error + http_response option) \<times> world" where
  "retry_loop env texts attempt 0 resp w = (Inr resp, w)"
| "retry_loop env texts attempt (Suc remaining) resp w =
     (let (resp', err) = embeddings_api env (http_calls w) texts;
          w1 = logged (HTTPPostEmbeddings texts) (w\<lparr>http_calls := Suc (http_calls w)\<rparr>)
      in if err = None \<and> resp' = None then (Inl (Panic NilPointerDereference), w1)
         else if err = None \<and> map_option StatusCode resp' = Some 200 then (Inr resp', w1)
         else if map_option StatusCode resp' = Some 429 then
           retry_loop env texts (Suc attempt) remaining resp' (logged (Sleep (2 ^ attempt)) w1)
         else (case err of
                 Some e \<Rightarrow> (Inl (wrap ''request failed'' e), w1)
               | None \<Rightarrow> (Inl (Errorf ''API error''), w1)))"

text \<open>
  The loop that files the decoded entries under their declared index, started on
  \<open>make([][]float32, len(Data))\<close>. A negative index panics at the assignment.
\<close>

fun place ::
  "(float32 list \<times> int) list \<Rightarrow> float32 list list \<Rightarrow> error + float32 list list" where
  "place [] embeddings = Inr embeddings"
| "place ((embedding, idx) # rest) embeddings =
     (if idx \<ge> int (length embeddings) then Inl (Errorf ''invalid embedding index'')
      else if idx < 0 then Inl (Panic IndexOutOfRange)
      else place rest (embeddings[nat idx := embedding]))"

definition generateBatch ::
  "env \<Rightarrow> world \<Rightarrow> string list \<Rightarrow> (error + float32 list list) \<times> world" where
  "generateBatch env w texts =
     (case retry_loop env texts 0 3 None w of
        (Inl e, w1) \<Rightarrow> (Inl e, w1)
      | (Inr None, w1) \<Rightarrow> (Inl (Errorf ''no response after retries''), w1)
      | (Inr (Some resp), w1) \<Rightarrow>
          (case Data resp of
             None \<Rightarrow> (Inl (Wrapf ''failed to decode response'' (Errorf ''json'')), w1)
           | Some entries \<Rightarrow>
               (case place entries (replicate (length entries) []) of
                  Inl e \<Rightarrow> (Inl e, w1)
                | Inr embeddings \<Rightarrow> (Inr embeddings, w1))))"

text \<open>
  The batching loop of \<open>GenerateEmbeddings\<close>, \<open>for i := 0; i < len(texts); i +=
  batchSize\<close>, over the texts from index \<open>i\<close> on: a pass embeds the next 100 of them.
\<close>

function batch_loop ::
  "env \<Rightarrow> string list \<Rightarrow> float32 list list \<Rightarrow> world \<Rightarrow> (error + float32 list list) \<times> world" where
  "batch_loop env texts allEmbeddings w =
     (if texts = [] then (Inr allEmbeddings, w)
      else (case generateBatch env w (take 100 texts) of
              (Inl e, w1) \<Rightarrow> (Inl (wrap ''failed to generate batch'' e), w1)
            | (Inr embeddings, w1) \<Rightarrow>
                batch_loop env (drop 100 texts) (allEmbeddings @ embeddings) w1))"
  by pat_completeness auto
termination
  by (relation "measure (\<lambda>(env, texts, allEmbeddings, w). length texts)") auto

declare batch_loop.simps [simp del]

definition GenerateEmbeddings ::
  "env \<Rightarrow> world \<Rightarrow> string list \<Rightarrow> (error + float32 list list) \<times> world" where
  "GenerateEmbeddings env w texts =
     (if length texts = 0 then (Inl (Errorf ''no texts provided''), w)
      else batch_loop env texts [] w)"

definition GenerateEmbedding ::
  "env \<Rightarrow> world \<Rightarrow> string \<Rightarrow> (error + float32 list) \<times> world" where
  "GenerateEmbedding env w text =
     (case GenerateEmbeddings env w [text] of
        (Inl e, w1) \<Rightarrow> (Inl e, w1)
      | (Inr embeddings, w1) \<Rightarrow>
          (case embeddings of
             [] \<Rightarrow> (Inl (Errorf ''no embeddings returned''), w1)
           | e # rest \<Rightarrow> (Inr e, w1)))"

definition GetDimensions :: nat where
  "GetDimensions = 1536"

section \<open>The document service (package service, DocumentService)\<close>

definition allowedTypes :: "string list" where
  "allowedTypes = [''.pdf'', ''.txt'', ''.md'', ''.json'', ''.csv'']"

definition maxSize :: int where
  "maxSize = 10 * 1024 * 1024"

text \<open>
  The loop \<open>for i, embedding := range embeddings\<close> that builds one point per
  embedding; reading \<open>chunks[i]\<close> panics when there are more embeddings than chunks.
\<close>

fun build_points ::
  "Document \<Rightarrow> string \<Rightarrow> string \<Rightarrow> string \<Rightarrow> string list \<Rightarrow> nat \<Rightarrow> float32 list list
   \<Rightarrow> VectorPoint list \<Rightarrow> error + VectorPoint list" where
  "build_points doc userID filename ext chunks i [] points = Inr points"
| "build_points doc userID filename ext chunks i (embedding # rest) points =
     (if i < length chunks then
        build_points doc userID filename ext chunks (Suc i) rest
          (points @
           [\<lparr>PointID = ID doc @ ''_chunk_'' @ Itoa i,
             Vector = embedding,
             Payload = [(''document_id'', AString (ID doc)),
                        (''user_id'', AString userID),
                        (''filename'', AString filename),
                        (''file_type'', AString ext),
                        (''chunk_index'', AnInt (int i)),
                        (''content'', AString (chunks ! i))]\<rparr>])
      else Inl (Panic IndexOutOfRange))"

text \<open>
  \<open>UploadDocument\<close>. The chunker is called with the constants 500 and 50 of the
  source and enough passes for any text (see \<open>ChunkText_500_50_returns\<close>).
\<close>

definition UploadDocument ::
  "env \<Rightarrow> world \<Rightarrow> string \<Rightarrow> FileHeader \<Rightarrow> (error + Document) \<times> world" where
  "UploadDocument env w userID file =
     (let ext = ToLower env (Ext (HeaderFilename file)) in
      if ext \<notin> set allowedTypes then (Inl (Errorf ''unsupported file type''), w)
      else if Size file > maxSize then (Inl (Errorf ''file too large (max 10MB)''), w)
      else
       (let (failed, w1) = call env (FileOpen (HeaderFilename file)) w in
        if failed then (Inl (Wrapf ''failed to open file'' (Errorf ''multipart'')), w1)
        else
         (let (failed2, w2) = call env (FileReadAll (HeaderFilename file)) w1 in
          if failed2 then (Inl (Wrapf ''failed to read file'' (Errorf ''io'')), w2)
          else
           (let content = Content file;
                fileHash = Sum256 env content
            in if ext \<notin> set [''.txt'', ''.md'', ''.json'', ''.csv'', ''.pdf'']
               then (Inl (Errorf ''unsupported file type''), w2)
               else
                (let text = content in
                 case ChunkText (Suc (length text)) text 500 50 of
                   None \<Rightarrow> (Inl Diverged, w2)
                 | Some (Inl p) \<Rightarrow> (Inl (Panic p), w2)
                 | Some (Inr chunks) \<Rightarrow>
                    if length chunks = 0
                    then (Inl (Errorf ''no text content found in document''), w2)
                    else
                     (case GenerateEmbeddings env w2 chunks of
                        (Inl e, w3) \<Rightarrow> (Inl (wrap ''failed to generate embeddings'' e), w3)
                      | (Inr embeddings, w3) \<Rightarrow>
                         (let storagePath = userID @ ''/'' @ fileHash @ ''/'' @ HeaderFilename file
                          in case UploadFile env w3 storagePath content of
                               (Some e, w4) \<Rightarrow> (Inl (wrap ''failed to upload file'' e), w4)
                             | (None, w4) \<Rightarrow>
                                (let doc = \<lparr>ID = [], UserID = userID,
                                            Filename = HeaderFilename file, FileType = ext,
                                            FileSize = Size file, FileHash = fileHash,
                                            StoragePath = storagePath,
                                            TotalChunks = int (length chunks), UploadDate = 0\<rparr>
                                 in case DocumentRepository_Create env w4 doc of
                                      ((Some e, doc'), w5) \<Rightarrow>
                                        (Inl (wrap ''failed to create document record'' e), w5)
                                    | ((None, doc'), w5) \<Rightarrow>
                                       (case EnsureCollection env w5 userID GetDimensions of
                                          (Some e, w6) \<Rightarrow>
                                            (Inl (wrap ''failed to ensure collection'' e), w6)
                                        | (None, w6) \<Rightarrow>
                                           (case build_points doc' userID (HeaderFilename file)
                                                   ext chunks 0 embeddings [] of
                                              Inl e \<Rightarrow> (Inl e, w6)
                                            | Inr points \<Rightarrow>
                                               (case InsertVectors env w6 userID points of
                                                  (Some e, w7) \<Rightarrow>
                                                    (Inl (wrap ''failed to insert vectors'' e), w7)
                                                | (None, w7) \<Rightarrow> (Inr doc', w7))))))))))))"

definition GetDocument ::
  "env \<Rightarrow> world \<Rightarrow> string \<Rightarrow> string \<Rightarrow> (error + Document) \<times> world" where
  "GetDocument env w userID documentID =
     (case DocumentRepository_GetByID env w documentID of
        (Inl e, w1) \<Rightarrow> (Inl e, w1)
      | (Inr doc, w1) \<Rightarrow>
          if UserID doc \<noteq> userID then (Inl (Errorf ''unauthorized''), w1)
          else (Inr doc, w1))"

definition DeleteDocument ::
  "env \<Rightarrow> world \<Rightarrow> string \<Rightarrow> string \<Rightarrow> error option \<times> world" where
  "DeleteDocument env w userID documentID =
     (case GetDocument env w userID documentID of
        (Inl e, w1) \<Rightarrow> (Some e, w1)
      | (Inr doc, w1) \<Rightarrow>
         (case DeleteFile env w1 (StoragePath doc) of
            (Some e, w2) \<Rightarrow> (Some (wrap ''failed to delete file'' e), w2)
          | (None, w2) \<Rightarrow>
             (case DeleteByDocumentID env w2 userID documentID of
                (Some e, w3) \<Rightarrow> (Some (wrap ''failed to delete vectors'' e), w3)
              | (None, w3) \<Rightarrow>
                 (case DocumentRepository_Delete env w3 documentID of
                    (Some e, w4) \<Rightarrow> (Some (wrap ''failed to delete document record'' e), w4)
                  | (None, w4) \<Rightarrow> (None, w4)))))"


section \<open>The query service (package service, RAGService)\<close>

record QueryResponse =
  Answer :: string
  Sources :: "(string \<times> any) list list"

definition systemPrompt :: string where
  "systemPrompt =
     ''You are a helpful AI assistant with access to the user'' @ [CHR 0x27] @
     ''s uploaded documents.'' @ [CHR 0x0A, CHR 0x0A] @
     ''Your role is to:'' @ [CHR 0x0A] @
     ''1. Answer questions accurately using information from the provided context'' @ [CHR 0x0A] @
     ''2. Cite specific sources when providing information'' @ [CHR 0x0A] @
     ''3. Be concise and actionable in your responses'' @ [CHR 0x0A] @
     ''4. If the information isn'' @ [CHR 0x27] @ ''t in the context, clearly state that'' @
     [CHR 0x0A, CHR 0x0A] @
     ''CRITICAL: Base your answer ONLY on the provided context. Do not use external knowledge.''"

text \<open>A payload lookup \<open>Payload[key]\<close>: a missing key reads as \<open>nil\<close>.\<close>

definition payload_get :: "(string \<times> any) list \<Rightarrow> string \<Rightarrow> any" where
  "payload_get payload key = (case map_of payload key of None \<Rightarrow> ANil | Some v \<Rightarrow> v)"

text \<open>
  Step 3 of \<open>Query\<close>: the contents that are strings, in rank order, and one source
  entry per result.
\<close>

fun context_chunks :: "VectorPoint list \<Rightarrow> string list" where
  "context_chunks [] = []"
| "context_chunks (result # results) =
     (case payload_get (Payload result) ''content'' of
        AString content \<Rightarrow> content # context_chunks results
      | _ \<Rightarrow> context_chunks results)"

definition sources_of :: "VectorPoint list \<Rightarrow> (string \<times> any) list list" where
  "sources_of results =
     map (\<lambda>result. [(''filename'', payload_get (Payload result) ''filename''),
                     (''page'', payload_get (Payload result) ''page'')]) results"

text \<open>Step 4: \<open>contextText\<close>, one tagged entry per chunk, numbered from 1.\<close>

fun context_text :: "nat \<Rightarrow> string list \<Rightarrow> string" where
  "context_text i [] = []"
| "context_text i (chunk # rest) =
     ([CHR 0x0A] @ ''[Document '' @ Itoa (i + 1) @ '']: '' @ chunk @ [CHR 0x0A])
     @ context_text (Suc i) rest"

definition user_prompt :: "string \<Rightarrow> string \<Rightarrow> string" where
  "user_prompt contextText question =
     ''Context from user'' @ [CHR 0x27] @ ''s documents:'' @ [CHR 0x0A] @ contextText @
     [CHR 0x0A, CHR 0x0A] @ ''Question: '' @ question @ [CHR 0x0A, CHR 0x0A] @
     ''Answer based on the above context:''"

definition callLLM :: "env \<Rightarrow> world \<Rightarrow> string \<Rightarrow> string \<Rightarrow> (error + string) \<times> world" where
  "callLLM env w sysPrompt userPrompt =
     (let (resp, err) = chat_api env (http_calls w) sysPrompt userPrompt;
          w1 = logged (HTTPPostChat sysPrompt userPrompt) (w\<lparr>http_calls := Suc (http_calls w)\<rparr>)
      in case err of
           Some e \<Rightarrow> (Inl (wrap ''request failed'' e), w1)
         | None \<Rightarrow>
            (case resp of
               None \<Rightarrow> (Inl (Panic NilPointerDereference), w1)
             | Some r \<Rightarrow>
                if ChatStatusCode r \<noteq> 200 then (Inl (Errorf ''API error''), w1)
                else (case Choices r of
                        None \<Rightarrow> (Inl (Wrapf ''failed to decode response'' (Errorf ''json'')), w1)
                      | Some [] \<Rightarrow> (Inl (Errorf ''no completion choices returned''), w1)
                      | Some (content # others) \<Rightarrow> (Inr content, w1))))"

definition Query :: "env \<Rightarrow> world \<Rightarrow> string \<Rightarrow> string \<Rightarrow> (error + QueryResponse) \<times> world" where
  "Query env w userID question =
     (case GenerateEmbedding env w question of
        (Inl e, w1) \<Rightarrow> (Inl (wrap ''failed to generate question embedding'' e), w1)
      | (Inr questionEmbedding, w1) \<Rightarrow>
         (case Search env w1 userID questionEmbedding 5 of
            (Inl e, w2) \<Rightarrow> (Inl (wrap ''failed to search vectors'' e), w2)
          | (Inr results, w2) \<Rightarrow>
             (let contextChunks = context_chunks results;
                  sources = sources_of results;
                  userPrompt = user_prompt (context_text 0 contextChunks) question
              in case callLLM env w2 systemPrompt userPrompt of
                   (Inl e, w3) \<Rightarrow> (Inl (wrap ''failed to call LLM'' e), w3)
                 | (Inr answer, w3) \<Rightarrow>
                    (case SaveQueryHistory env w3 userID question answer of
                       (Some e, w4) \<Rightarrow>
                         (Inr \<lparr>Answer = answer, Sources = sources\<rparr>,
                          logged (LogError ''Failed to save query history'') w4)
                     | (None, w4) \<Rightarrow> (Inr \<lparr>Answer = answer, Sources = sources\<rparr>, w4)))))"

section \<open>Notions used to state and prove the chunker's properties\<close>

text \<open>\<open>sep\<close> occurs in \<open>s\<close> at byte offset \<open>j\<close>.\<close>

definition occurs_at :: "string \<Rightarrow> string \<Rightarrow> nat \<Rightarrow> bool" where
  "occurs_at s sep j \<longleftrightarrow> j + length sep \<le> length s \<and> take (length sep) (drop j s) = sep"

text \<open>
  The absolute break point chosen for the window of \<open>r\<close> bytes that starts at
  offset \<open>a\<close>: the end of the last occurrence of the first separator found, or
  the end of the window.
\<close>

definition fbp :: "string \<Rightarrow> string list \<Rightarrow> nat \<Rightarrow> nat \<Rightarrow> int" where
  "fbp text seps r a =
     int a + (case find_sep (take r (drop a text)) seps of Some off \<Rightarrow> off | None \<Rightarrow> int r)"

text \<open>The break point of the pass that starts at \<open>start\<close>.\<close>

definition break_point :: "string \<Rightarrow> int \<Rightarrow> int \<Rightarrow> int" where
  "break_point text chunkSize start =
     fbp text separators (nat (searchRange chunkSize))
       (nat (start + chunkSize - searchRange chunkSize))"

text \<open>
  The last three statements of the loop body: \<open>start = breakPoint - overlap\<close>,
  raised to \<open>0\<close> when negative, lowered to \<open>breakPoint\<close> when not below it.
\<close>

definition next_start :: "int \<Rightarrow> int \<Rightarrow> int" where
  "next_start breakPoint overlap =
     (let start1 = breakPoint - overlap;
          start2 = (if start1 < 0 then 0 else start1)
      in if start2 \<ge> breakPoint then breakPoint else start2)"

text \<open>
  Removing the declared overlap: every chunk but the first loses its first
  \<open>overlap\<close> bytes, and the rest is concatenated.
\<close>

fun reconstruct :: "int \<Rightarrow> string list \<Rightarrow> string" where
  "reconstruct overlap [] = []"
| "reconstruct overlap (c # cs) = c @ concat (map (drop (nat overlap)) cs)"

section \<open>Notions used to state and prove the services' properties\<close>

text \<open>The calls that reach the vector index or the vector repository.\<close>

fun is_vector_event :: "event \<Rightarrow> bool" where
  "is_vector_event QdrantList = True"
| "is_vector_event (QdrantCreate name dim) = True"
| "is_vector_event (VectorInsertVectors userID points) = True"
| "is_vector_event (VectorSearch userID vector limit) = True"
| "is_vector_event (VectorDeleteByDocumentID userID documentID) = True"
| "is_vector_event ev = False"

text \<open>
  Two states with the same document rows, the same collections and the same calls on
  the vector side.
\<close>

definition same_index :: "world \<Rightarrow> world \<Rightarrow> bool" where
  "same_index w w' \<longleftrightarrow>
     documents w' = documents w \<and> collections w' = collections w \<and>
     filter is_vector_event (trace w') = filter is_vector_event (trace w)"

section \<open>An example environment and example states\<close>

text \<open>
  A stand-in for \<open>strings.ToLower\<close> on ASCII, a stand-in for the embedding model
  (one number per text), and an environment without faults whose embeddings endpoint
  answers every batch with status 200 and one entry per input, listed in reverse
  order. The stand-in for the digest is injective.
\<close>

definition ToLowerASCII :: "string \<Rightarrow> string" where
  "ToLowerASCII s =
     map (\<lambda>c. let n = (of_char c :: nat) in if 65 \<le> n \<and> n \<le> 90 then char_of (n + 32) else c) s"

definition example_embedding :: "string \<Rightarrow> float32 list" where
  "example_embedding text = [of_nat (length text)]"

definition example_env :: env where
  "example_env =
     \<lparr>fault = (\<lambda>t. False),
      embeddings_api = (\<lambda>n batch.
        (Some \<lparr>StatusCode = 200,
               Data = Some (rev (zip (map example_embedding batch) (map int [0..<length batch])))\<rparr>,
         None)),
      chat_api = (\<lambda>n sysPrompt userPrompt.
        (Some \<lparr>ChatStatusCode = 200, Choices = Some [''No information found.'']\<rparr>, None)),
      uuid_generate_v4 = (\<lambda>n. ''doc-'' @ Itoa n),
      ToLower = ToLowerASCII,
      Sum256 = (\<lambda>content. ''sha256-of-'' @ content)\<rparr>"

text \<open>The embeddings endpoint answers every request with 429 and a JSON error body.\<close>

definition rate_limited_env :: env where
  "rate_limited_env =
     example_env\<lparr>embeddings_api := (\<lambda>n batch. (Some \<lparr>StatusCode = 429, Data = Some []\<rparr>, None))\<rparr>"

text \<open>The embeddings endpoint answers with status 200 and gives every entry index 0.\<close>

definition duplicate_index_env :: env where
  "duplicate_index_env =
     example_env\<lparr>embeddings_api := (\<lambda>n batch.
        (Some \<lparr>StatusCode = 200, Data = Some (map (\<lambda>t. (example_embedding t, 0)) batch)\<rparr>, None))\<rparr>"



definition empty_world :: world where
  "empty_world =
     \<lparr>documents = [], query_history = [], objects = Map.empty, collections = [],
      http_calls = 0, db_inserts = 0, trace = []\<rparr>"

definition example_file :: FileHeader where
  "example_file = \<lparr>HeaderFilename = ''notes.txt'', Size = 5, Content = ''hello''\<rparr>"

text \<open>
  The row and the state that the first upload of \<open>example_file\<close> by user \<open>u2\<close>
  leaves behind (lemma \<open>first_upload\<close>).
\<close>

definition stored_document :: Document where
  "stored_document =
     \<lparr>ID = ''doc-0'', UserID = ''u2'', Filename = ''notes.txt'', FileType = ''.txt'',
      FileSize = 5, FileHash = ''sha256-of-hello'',
      StoragePath = ''u2/sha256-of-hello/notes.txt'', TotalChunks = 1, UploadDate = 0\<rparr>"

definition world_after_upload :: world where
  "world_after_upload =
     \<lparr>documents = [stored_document],
      query_history = [],
      objects = [''u2/sha256-of-hello/notes.txt'' \<mapsto> ''hello''],
      collections = [''user_u2_docs''],
      http_calls = 1,
      db_inserts = 1,
      trace = [FileOpen ''notes.txt'', FileReadAll ''notes.txt'', HTTPPostEmbeddings [''hello''],
               StorageUploadFile ''u2/sha256-of-hello/notes.txt'' ''hello'',
               DBInsertDocument ''u2'' ''sha256-of-hello'', QdrantList,
               QdrantCreate ''user_u2_docs'' 1536,
               VectorInsertVectors ''u2''
                 [\<lparr>PointID = ''doc-0_chunk_0'', Vector = [5],
                   Payload = [(''document_id'', AString ''doc-0''), (''user_id'', AString ''u2''),
                              (''filename'', AString ''notes.txt''), (''file_type'', AString ''.txt''),
                              (''chunk_index'', AnInt 0), (''content'', AString ''hello'')]\<rparr>]]\<rparr>"

section \<open>Properties of the chunker\<close>

subsection \<open>Occurrences and \<open>LastIndex\<close>\<close>

lemma last_index_from_range: "- 1 \<le> last_index_from s sep i \<and> last_index_from s sep i \<le> int i"
  by (induction i) auto

lemma last_index_from_none:
  "last_index_from s sep i = - 1 \<longleftrightarrow> (\<forall>j\<le>i. take (length sep) (drop j s) \<noteq> sep)"
proof (induction i)
  case 0
  then show ?case by simp
next
  case (Suc i)
  then show ?case by (auto simp: le_Suc_eq)
qed

lemma last_index_from_some:
  "last_index_from s sep i = int j \<longleftrightarrow>
     j \<le> i \<and> take (length sep) (drop j s) = sep \<and>
     (\<forall>k. j < k \<and> k \<le> i \<longrightarrow> take (length sep) (drop k s) \<noteq> sep)"
proof (induction i)
  case 0
  then show ?case by auto
next
  case (Suc i)
  show ?case
  proof (cases "take (length sep) (drop (Suc i) s) = sep")
    case True
    have "int (Suc i) = int j \<longleftrightarrow> j = Suc i" by linarith
    with True show ?thesis
      by (auto simp: le_Suc_eq simp del: of_nat_Suc)
  next
    case False
    then show ?thesis using Suc
      by (auto simp: le_Suc_eq simp del: of_nat_Suc)
  qed
qed

lemma occurs_at_bound: "occurs_at s sep j \<Longrightarrow> j \<le> length s - length sep \<and> length sep \<le> length s"
  by (auto simp: occurs_at_def)

lemma take_drop_match_bound:
  assumes "take (length sep) (drop j s) = sep" "sep \<noteq> []"
  shows "j + length sep \<le> length s"
proof -
  have "length (take (length sep) (drop j s)) = length sep" using assms by simp
  then show ?thesis using assms(2) by (cases "j < length s") (auto simp: min_def split: if_splits)
qed

lemma LastIndex_none: "LastIndex s sep = - 1 \<longleftrightarrow> (\<forall>j. \<not> occurs_at s sep j)"
  by (auto simp: LastIndex_def occurs_at_def last_index_from_none)

lemma LastIndex_some:
  "LastIndex s sep = int j \<longleftrightarrow> occurs_at s sep j \<and> (\<forall>k>j. \<not> occurs_at s sep k)"
  by (auto simp: LastIndex_def occurs_at_def last_index_from_some)

lemma LastIndex_range: "- 1 \<le> LastIndex s sep"
  using last_index_from_range by (simp add: LastIndex_def)


lemma occurs_at_window:
  assumes "a + r \<le> length text"
  shows "occurs_at (take r (drop a text)) sep j \<longleftrightarrow>
           j + length sep \<le> r \<and> occurs_at text sep (a + j)"
proof (cases "j + length sep \<le> r")
  case True
  have "take (length sep) (drop j (take r (drop a text))) = take (length sep) (drop (a + j) text)"
    using True by (simp add: drop_take min_def add.commute)
  then show ?thesis using True assms by (auto simp: occurs_at_def)
next
  case False
  then show ?thesis using assms by (auto simp: occurs_at_def)
qed

lemma find_sep_bounds:
  assumes "find_sep w seps = Some off" "\<forall>sep\<in>set seps. sep \<noteq> []"
  shows "1 \<le> off \<and> off \<le> int (length w)"
  using assms
proof (induction seps)
  case Nil
  then show ?case by simp
next
  case (Cons sep seps)
  show ?case
  proof (cases "LastIndex w sep = - 1")
    case True
    then show ?thesis using Cons by simp
  next
    case False
    then have "0 \<le> LastIndex w sep" using LastIndex_range [of w sep] by linarith
    then obtain j where j: "LastIndex w sep = int j" using nonneg_int_cases by blast
    then have "occurs_at w sep j" by (simp add: LastIndex_some)
    then have "j + length sep \<le> length w" by (simp add: occurs_at_def)
    moreover have "sep \<noteq> []" using Cons.prems by simp
    moreover have "off = int j + int (length sep)" using Cons.prems(1) False j by simp
    ultimately show ?thesis by (cases sep) auto
  qed
qed

lemma fbp_bounds:
  assumes "\<forall>sep\<in>set seps. sep \<noteq> []" "1 \<le> r" "a + r \<le> length text"
  shows "int a + 1 \<le> fbp text seps r a \<and> fbp text seps r a \<le> int a + int r"
proof (cases "find_sep (take r (drop a text)) seps")
  case None
  then show ?thesis using assms by (simp add: fbp_def)
next
  case (Some off)
  have "length (take r (drop a text)) = r" using assms by simp
  with find_sep_bounds [OF Some assms(1)] Some show ?thesis by (simp add: fbp_def)
qed

lemma fbp_Cons_found:
  assumes "LastIndex (take r (drop a text)) sep = int j"
  shows "fbp text (sep # seps) r a = int a + int j + int (length sep)"
  using assms by (simp add: fbp_def)

lemma fbp_Cons_none:
  assumes "LastIndex (take r (drop a text)) sep = - 1"
  shows "fbp text (sep # seps) r a = fbp text seps r a"
  using assms by (simp add: fbp_def)

lemma LastIndex_cases:
  obtains "LastIndex w sep = - 1" "\<forall>j. \<not> occurs_at w sep j"
  | j where "LastIndex w sep = int j" "occurs_at w sep j" "\<forall>k>j. \<not> occurs_at w sep k"
proof (cases "LastIndex w sep = - 1")
  case True
  then show ?thesis using that(1) by (simp add: LastIndex_none)
next
  case False
  then have "0 \<le> LastIndex w sep" using LastIndex_range [of w sep] by linarith
  then obtain j where j: "LastIndex w sep = int j" using nonneg_int_cases by blast
  then show ?thesis using that(2) [of j] by (simp add: LastIndex_some)
qed

lemma fbp_mono:
  assumes seps: "\<forall>sep\<in>set seps. 1 \<le> length sep \<and> length sep \<le> 2"
    and r: "1 \<le> r" and le: "a' \<le> a" and fit: "a + r \<le> length text"
  shows "fbp text seps r a' \<le> fbp text seps r a"
  using seps
proof (induction seps)
  case Nil
  then show ?case using le by (simp add: fbp_def)
next
  case (Cons sep seps)
  have fit': "a' + r \<le> length text" using le fit by simp
  have len: "1 \<le> length sep" "length sep \<le> 2" using Cons.prems by simp_all
  have ne: "\<forall>sep\<in>set seps. sep \<noteq> []" using Cons.prems by auto
  have IH: "fbp text seps r a' \<le> fbp text seps r a" using Cons by simp
  show ?case
  proof (cases rule: LastIndex_cases [of "take r (drop a' text)" sep])
    case 1
    note none' = 1
    show ?thesis
    proof (cases rule: LastIndex_cases [of "take r (drop a text)" sep])
      case 1
      then show ?thesis using none' IH by (simp add: fbp_Cons_none)
    next
      case (2 j)
      have "occurs_at text sep (a + j)" "j + length sep \<le> r"
        using 2(2) occurs_at_window [OF fit] by simp_all
      have "\<not> occurs_at (take r (drop a' text)) sep (a + j - a')" using none'(2) by simp
      then have "\<not> (a + j - a' + length sep \<le> r)"
        using occurs_at_window [OF fit', of sep "a + j - a'"] le \<open>occurs_at text sep (a + j)\<close>
        by simp
      then have "int a' + int r < int a + int j + int (length sep)" using le by linarith
      moreover have "fbp text seps r a' \<le> int a' + int r"
        using fbp_bounds [OF ne r fit'] by simp
      ultimately show ?thesis using none' 2 by (simp add: fbp_Cons_none fbp_Cons_found)
    qed
  next
    case (2 j')
    note some' = 2
    have occ': "occurs_at text sep (a' + j')" "j' + length sep \<le> r"
      using some'(2) occurs_at_window [OF fit'] by simp_all
    have inwin: "a \<le> a' + j' \<Longrightarrow> occurs_at (take r (drop a text)) sep (a' + j' - a)"
      using occurs_at_window [OF fit, of sep "a' + j' - a"] occ' le by simp
    show ?thesis
    proof (cases rule: LastIndex_cases [of "take r (drop a text)" sep])
      case 1
      then have "\<not> a \<le> a' + j'" using inwin by blast
      then have "int a' + int j' + int (length sep) \<le> int a + 1" using len by linarith
      moreover have "int a + 1 \<le> fbp text seps r a" using fbp_bounds [OF ne r fit] by simp
      ultimately show ?thesis using some' 1 by (simp add: fbp_Cons_none fbp_Cons_found)
    next
      case (2 j)
      have "a' + j' \<le> a + j"
      proof (cases "a \<le> a' + j'")
        case True
        then have "\<not> j < a' + j' - a" using inwin 2(3) by blast
        then show ?thesis by linarith
      next
        case False
        then show ?thesis by linarith
      qed
      then show ?thesis using some' 2 by (simp add: fbp_Cons_found)
    qed
  qed
qed

subsection \<open>One pass of the loop\<close>

lemma searchRange_bounds: "20 \<le> L \<Longrightarrow> 20 \<le> searchRange L \<and> searchRange L \<le> L"
  by (auto simp: searchRange_def signed_divide_int_def Let_def sgn_if)

lemma separators_lengths: "\<forall>sep\<in>set separators. 1 \<le> length sep \<and> length sep \<le> 2"
  by (simp add: separators_def)

lemma separators_nonempty: "\<forall>sep\<in>set separators. sep \<noteq> []"
  by (simp add: separators_def)

lemma break_point_bounds:
  assumes "20 \<le> L" "0 \<le> s" "s + L < int (length text)"
  shows "s + L - searchRange L < break_point text L s \<and> break_point text L s \<le> s + L"
proof -
  have sr: "20 \<le> searchRange L" "searchRange L \<le> L" using searchRange_bounds [OF assms(1)] by simp_all
  have "nat (s + L - searchRange L) + nat (searchRange L) \<le> length text"
    using assms sr by linarith
  moreover have "1 \<le> nat (searchRange L)" using sr by linarith
  ultimately have "int (nat (s + L - searchRange L)) + 1 \<le> break_point text L s \<and>
       break_point text L s \<le> int (nat (s + L - searchRange L)) + int (nat (searchRange L))"
    unfolding break_point_def using fbp_bounds [OF separators_nonempty] by blast
  then show ?thesis using sr assms by linarith
qed

lemma break_point_mono:
  assumes "20 \<le> L" "0 \<le> s'" "s' \<le> s" "s + L < int (length text)"
  shows "break_point text L s' \<le> break_point text L s"
proof -
  have sr: "20 \<le> searchRange L" "searchRange L \<le> L" using searchRange_bounds [OF assms(1)] by simp_all
  have "nat (s + L - searchRange L) + nat (searchRange L) \<le> length text"
    using assms sr by linarith
  moreover have "nat (s' + L - searchRange L) \<le> nat (s + L - searchRange L)"
    using assms by linarith
  moreover have "1 \<le> nat (searchRange L)" using sr by linarith
  ultimately show ?thesis
    unfolding break_point_def using fbp_mono [OF separators_lengths] by blast
qed

lemma next_start_eq: "0 \<le> ov \<Longrightarrow> 0 \<le> b \<Longrightarrow> next_start b ov = max 0 (b - ov)"
  by (auto simp: next_start_def Let_def)

lemma chunk_step_last:
  assumes "0 \<le> s" "s < int (length text)" "int (length text) \<le> s + L"
  shows "chunk_step text L ov s = Inr (drop (nat s) text, None)"
  using assms by (simp add: chunk_step_def slice_from_def slice_def)

lemma chunk_step_next:
  assumes "20 \<le> L" "0 \<le> s" "s + L < int (length text)"
  shows "chunk_step text L ov s =
           Inr (take (nat (break_point text L s - s)) (drop (nat s) text),
                Some (next_start (break_point text L s) ov))"
proof -
  have sr: "20 \<le> searchRange L" "searchRange L \<le> L" using searchRange_bounds [OF assms(1)] by simp_all
  have w: "slice text (s + L - searchRange L) (s + L) =
             Inr (take (nat (searchRange L)) (drop (nat (s + L - searchRange L)) text))"
    using assms sr by (simp add: slice_def)
  have bp: "(case find_sep (take (nat (searchRange L)) (drop (nat (s + L - searchRange L)) text)) separators of
               Some off \<Rightarrow> s + L - searchRange L + off | None \<Rightarrow> s + L) = break_point text L s"
    using assms sr by (simp add: break_point_def fbp_def split: option.splits)
  have b: "s + L - searchRange L < break_point text L s" "break_point text L s \<le> s + L"
    using break_point_bounds [OF assms] by simp_all
  have c: "slice text s (break_point text L s) =
             Inr (take (nat (break_point text L s - s)) (drop (nat s) text))"
    using assms sr b by (simp add: slice_def)
  show ?thesis
    using assms by (simp add: chunk_step_def Let_def w bp c next_start_def)
qed

lemma chunk_step_small_chunkSize:
  assumes "L < 20" "L < int (length text)"
  shows "chunk_step text L ov 0 = Inl SliceBoundsOutOfRange"
proof -
  have "searchRange L = 20" using assms by (auto simp: searchRange_def signed_divide_int_def Let_def sgn_if)
  then show ?thesis using assms by (simp add: chunk_step_def slice_def)
qed

lemma chunk_loop_stuck:
  assumes "20 \<le> L" "0 \<le> ov"
  shows "0 \<le> s \<Longrightarrow> s + L < int (length text) \<Longrightarrow> next_start (break_point text L s) ov \<le> s
         \<Longrightarrow> chunk_loop fuel text L ov s acc = None"
proof (induction fuel arbitrary: s acc)
  case 0
  then show ?case by simp
next
  case (Suc fuel)
  let ?b = "break_point text L s"
  let ?s' = "next_start ?b ov"
  have sr: "20 \<le> searchRange L" "searchRange L \<le> L" using searchRange_bounds [OF assms(1)] by simp_all
  have b: "s + L - searchRange L < ?b" "?b \<le> s + L"
    using break_point_bounds [OF assms(1) Suc.prems(1,2)] by simp_all
  have b0: "0 \<le> ?b" using b sr Suc.prems by linarith
  have s'0: "0 \<le> ?s'" using next_start_eq [OF assms(2) b0] by simp
  have s'L: "?s' + L < int (length text)" using Suc.prems by linarith
  have "break_point text L ?s' \<le> ?b"
    using break_point_mono [OF assms(1) s'0 Suc.prems(3) Suc.prems(2)] .
  moreover have "0 \<le> break_point text L ?s'"
    using break_point_bounds [OF assms(1) s'0 s'L] sr s'0 by linarith
  ultimately have "max 0 (break_point text L ?s' - ov) \<le> max 0 (?b - ov)"
    by linarith
  moreover have "\<And>b. 0 \<le> b \<Longrightarrow> next_start b ov = max 0 (b - ov)"
    using next_start_eq [OF assms(2)] by simp
  ultimately have "next_start (break_point text L ?s') ov \<le> ?s'"
    using b0 \<open>0 \<le> break_point text L ?s'\<close> by metis
  from Suc.IH [OF s'0 s'L this]
  have "chunk_loop fuel text L ov ?s' (acc @ [take (nat (?b - s)) (drop (nat s) text)]) = None" .
  moreover have "s < int (length text)" using Suc.prems assms by linarith
  ultimately show ?case
    using chunk_step_next [OF assms(1) Suc.prems(1,2)] by simp
qed

lemma reconstruct_snoc:
  "reconstruct ov (acc @ [c]) = (if acc = [] then c else reconstruct ov acc @ drop (nat ov) c)"
  by (cases acc) simp_all

lemma chunk_loop_reconstruct:
  assumes "20 \<le> L" "0 \<le> ov"
  shows "chunk_loop fuel text L ov s acc = Some (Inr res) \<Longrightarrow> 0 \<le> s \<Longrightarrow>
         (acc = [] \<and> s = 0) \<or>
         (acc \<noteq> [] \<and> s + ov \<le> int (length text) \<and> reconstruct ov acc = take (nat (s + ov)) text)
         \<Longrightarrow> reconstruct ov res = text"
proof (induction fuel arbitrary: s acc)
  case 0
  then show ?case by simp
next
  case (Suc fuel)
  note inv = Suc.prems(3)
  show ?case
  proof (cases "s < int (length text)")
    case False
    then have res: "res = acc" using Suc.prems(1) by simp
    show ?thesis
    proof (cases "acc = []")
      case True
      then have "text = []" using inv False by simp
      then show ?thesis using res True by simp
    next
      case False
      then have "reconstruct ov acc = take (nat (s + ov)) text" using inv by simp
      moreover have "length text \<le> nat (s + ov)" using \<open>\<not> s < int (length text)\<close> assms by linarith
      ultimately show ?thesis using res by simp
    qed
  next
    case True
    note lt = True
    show ?thesis
    proof (cases "int (length text) \<le> s + L")
      case True
      have res: "res = acc @ [drop (nat s) text]"
        using Suc.prems(1) lt chunk_step_last [OF Suc.prems(2) lt True] by simp
      show ?thesis
      proof (cases "acc = []")
        case True
        then show ?thesis using res inv by simp
      next
        case False
        then have "reconstruct ov acc = take (nat (s + ov)) text" using inv by simp
        moreover have "drop (nat ov) (drop (nat s) text) = drop (nat (s + ov)) text"
          using assms Suc.prems(2) by (simp add: nat_add_distrib add.commute)
        ultimately show ?thesis using res False by (simp add: reconstruct_snoc)
      qed
    next
      case False
      then have sL: "s + L < int (length text)" by simp
      let ?b = "break_point text L s"
      let ?s' = "next_start ?b ov"
      let ?c = "take (nat (?b - s)) (drop (nat s) text)"
      have sr: "20 \<le> searchRange L" "searchRange L \<le> L" using searchRange_bounds [OF assms(1)] by simp_all
      have b: "s + L - searchRange L < ?b" "?b \<le> s + L"
        using break_point_bounds [OF assms(1) Suc.prems(2) sL] by simp_all
      have b0: "0 \<le> ?b" using b sr Suc.prems by linarith
      have step: "chunk_loop fuel text L ov ?s' (acc @ [?c]) = Some (Inr res)"
        using Suc.prems(1) lt chunk_step_next [OF assms(1) Suc.prems(2) sL] by simp
      have "\<not> ?s' \<le> s"
      proof
        assume "?s' \<le> s"
        then have "chunk_loop (Suc fuel) text L ov s acc = None"
          by (rule chunk_loop_stuck [OF assms Suc.prems(2) sL])
        then show False using Suc.prems(1) by simp
      qed
      then have prog: "s < ?s'" by simp
      then have s'eq: "?s' = ?b - ov" using next_start_eq [OF assms(2) b0] Suc.prems(2) by (simp add: max_def split: if_splits)
      have s'0: "0 \<le> ?s'" using prog Suc.prems(2) by linarith
      have "reconstruct ov (acc @ [?c]) = take (nat ?b) text"
      proof (cases "acc = []")
        case True
        then have "s = 0" using inv by simp
        then show ?thesis using True by simp
      next
        case False
        then have r: "reconstruct ov acc = take (nat (s + ov)) text" using inv by simp
        have "drop (nat ov) ?c = take (nat (?b - s) - nat ov) (drop (nat (s + ov)) text)"
          using assms Suc.prems(2) by (simp add: drop_take nat_add_distrib add.commute)
        moreover have "nat (?b - s) - nat ov = nat ?b - nat (s + ov)"
          using assms Suc.prems(2) prog s'eq by linarith
        moreover have "nat (s + ov) \<le> nat ?b" using prog s'eq by linarith
        ultimately have "take (nat (s + ov)) text @ drop (nat ov) ?c = take (nat ?b) text"
          by (metis add_diff_cancel_left' le_Suc_ex take_add)
        then show ?thesis using r False by (simp add: reconstruct_snoc)
      qed
      moreover have "?s' + ov \<le> int (length text)" using s'eq b sL by linarith
      ultimately have "acc @ [?c] \<noteq> [] \<and> ?s' + ov \<le> int (length text) \<and>
             reconstruct ov (acc @ [?c]) = take (nat (?s' + ov)) text"
        using s'eq by simp
      then show ?thesis using Suc.IH [OF step s'0] by blast
    qed
  qed
qed

lemma chunk_loop_returns:
  assumes "20 \<le> L" "0 \<le> ov" "ov + searchRange L \<le> L"
  shows "0 \<le> s \<Longrightarrow> nat (int (length text) - s) < fuel \<Longrightarrow>
         \<exists>res. chunk_loop fuel text L ov s acc = Some (Inr res)"
proof (induction fuel arbitrary: s acc)
  case 0
  then show ?case by simp
next
  case (Suc fuel)
  show ?case
  proof (cases "s < int (length text)")
    case False
    then show ?thesis by simp
  next
    case True
    note lt = True
    show ?thesis
    proof (cases "int (length text) \<le> s + L")
      case True
      then show ?thesis using lt chunk_step_last [OF Suc.prems(1) lt True] by simp
    next
      case False
      then have sL: "s + L < int (length text)" by simp
      let ?b = "break_point text L s"
      let ?s' = "next_start ?b ov"
      have b: "s + L - searchRange L < ?b" "?b \<le> s + L"
        using break_point_bounds [OF assms(1) Suc.prems(1) sL] by simp_all
      have b0: "0 \<le> ?b" using b assms Suc.prems by linarith
      have "?s' = ?b - ov" using next_start_eq [OF assms(2) b0] b assms Suc.prems(1) by (simp add: max_def)
      then have prog: "s < ?s'" using b assms by linarith
      then have "0 \<le> ?s'" "nat (int (length text) - ?s') < fuel"
        using Suc.prems lt by linarith+
      from Suc.IH [OF this] show ?thesis
        using lt chunk_step_next [OF assms(1) Suc.prems(1) sL] by simp
    qed
  qed
qed

lemma searchRange_ge: "20 \<le> searchRange L"
  by (simp add: searchRange_def Let_def)

subsection \<open>Short texts\<close>


text \<open>
  C6 (as amended). A non-empty text that is no longer than the chunk size comes back
  as the single chunk \<open>[text]\<close>, whatever the overlap. The empty text is excluded:
  the chunker's first guard returns no chunk at all for it.
\<close>

theorem ChunkText_short_text:
  assumes "text \<noteq> []" and "int (length text) \<le> chunkSize"
  shows "ChunkText fuel text chunkSize overlap = Some (Inr [text])"
  using assms by (simp add: ChunkText_def)

theorem ChunkText_short_text_witness:
  "''hello'' \<noteq> [] \<and> int (length ''hello'') \<le> 500
   \<and> ChunkText 0 ''hello'' 500 50 = Some (Inr [''hello''])"
  using ChunkText_short_text [of "''hello''" 500 0 50] by simp

text \<open>
  The claim as the specification words it, for every text of length at most the
  chunk size, fails at the empty text: the result is the empty list, not \<open>[[]]\<close>.
\<close>

theorem ChunkText_empty_text_counterexample:
  "\<not> (\<forall>fuel text chunkSize overlap.
        int (length text) \<le> chunkSize \<longrightarrow>
        ChunkText fuel text chunkSize overlap = Some (Inr [text]))"
proof
  assume h: "\<forall>fuel text chunkSize overlap.
        int (length text) \<le> chunkSize \<longrightarrow>
        ChunkText fuel text chunkSize overlap = Some (Inr [text])"
  have "ChunkText 0 [] 5 0 = Some (Inr [[]])"
    using h by simp
  then show False by (simp add: ChunkText_def)
qed

subsection \<open>Forward progress and termination\<close>

text \<open>
  C3. The loop does not clamp the next start to the previous start: it clamps
  \<open>breakPoint - overlap\<close> to \<open>0\<close> from below and to \<open>breakPoint\<close> from above only.
  With a chunk size of 20 and an overlap of 1, on a text that is one space followed by
  twenty letters, the first pass breaks after the space, appends the chunk \<open>" "\<close> and
  sets \<open>start\<close> back to \<open>0\<close>; every later pass does the same, so \<open>ChunkText\<close> has
  not returned after any number of passes.
\<close>

theorem ChunkText_overlap_never_returns:
  "chunk_step '' aaaaaaaaaaaaaaaaaaaa'' 20 1 0 = Inr ('' '', Some 0)
   \<and> (\<forall>fuel. ChunkText fuel '' aaaaaaaaaaaaaaaaaaaa'' 20 1 = None)"
proof -
  have step: "chunk_step '' aaaaaaaaaaaaaaaaaaaa'' 20 1 0 = Inr ('' '', Some 0)"
    by code_simp
  have "chunk_loop fuel '' aaaaaaaaaaaaaaaaaaaa'' 20 1 0 acc = None" for fuel acc
    by (induction fuel arbitrary: acc) (simp_all add: step)
  then show ?thesis using step by (simp add: ChunkText_def)
qed

subsection \<open>Reconstruction of the text\<close>

text \<open>
  What does hold of the chunker for every text and every chunk size and overlap with
  \<open>0 \<le> overlap < chunkSize\<close>: a chunk list that \<open>ChunkText\<close> returns gives the
  text back when the first \<open>overlap\<close> bytes of every chunk but the first are removed
  and the rest is concatenated. Whenever the overlap leaves the search window free,
  that is \<open>overlap + max(chunkSize / 5, 20) \<le> chunkSize\<close>, \<open>ChunkText\<close> does
  return such a list, within \<open>len(text) + 1\<close> passes of its loop.
\<close>

theorem ChunkText_reconstruct:
  assumes "0 \<le> overlap" and "overlap < chunkSize"
  shows "(\<forall>fuel chunks. ChunkText fuel text chunkSize overlap = Some (Inr chunks)
            \<longrightarrow> reconstruct overlap chunks = text)
       \<and> (overlap + searchRange chunkSize \<le> chunkSize
            \<longrightarrow> (\<exists>chunks. ChunkText (Suc (length text)) text chunkSize overlap = Some (Inr chunks)))"
proof (intro conjI allI impI)
  fix fuel chunks
  assume ret: "ChunkText fuel text chunkSize overlap = Some (Inr chunks)"
  show "reconstruct overlap chunks = text"
  proof (cases "length text = 0 \<or> int (length text) \<le> chunkSize")
    case True
    then show ?thesis using ret by (auto simp: ChunkText_def split: if_splits)
  next
    case False
    then have loop: "chunk_loop fuel text chunkSize overlap 0 [] = Some (Inr chunks)"
      using ret by (simp add: ChunkText_def)
    show ?thesis
    proof (cases "20 \<le> chunkSize")
      case True
      show ?thesis
        by (rule chunk_loop_reconstruct [OF True assms(1) loop]) simp_all
    next
      case False
      then have "chunk_step text chunkSize overlap 0 = Inl SliceBoundsOutOfRange"
        using \<open>\<not> (length text = 0 \<or> int (length text) \<le> chunkSize)\<close>
        by (intro chunk_step_small_chunkSize) simp_all
      moreover have "0 < int (length text)"
        using \<open>\<not> (length text = 0 \<or> int (length text) \<le> chunkSize)\<close> by simp
      ultimately have "chunk_loop fuel text chunkSize overlap 0 [] \<noteq> Some (Inr chunks)"
        by (cases fuel) simp_all
      then show ?thesis using loop by simp
    qed
  qed
next
  assume safe: "overlap + searchRange chunkSize \<le> chunkSize"
  have big: "20 \<le> chunkSize" using safe assms(1) searchRange_ge [of chunkSize] by linarith
  show "\<exists>chunks. ChunkText (Suc (length text)) text chunkSize overlap = Some (Inr chunks)"
  proof (cases "length text = 0 \<or> int (length text) \<le> chunkSize")
    case True
    then show ?thesis by (auto simp: ChunkText_def)
  next
    case False
    have "\<exists>res. chunk_loop (Suc (length text)) text chunkSize overlap 0 [] = Some (Inr res)"
      by (rule chunk_loop_returns [OF big assms(1) safe]) simp_all
    then show ?thesis using False by (simp add: ChunkText_def)
  qed
qed


theorem ChunkText_reconstruct_witness:
  "(0::int) \<le> 5 \<and> (5::int) < 25
   \<and> ChunkText 63 ''The quick brown fox. It jumps over the lazy dog and runs away.'' 25 5 =
       Some (Inr [''The quick brown fox. '', ''fox. It jumps over the '',
                  '' the lazy dog and runs '', ''runs away.''])
   \<and> reconstruct 5 [''The quick brown fox. '', ''fox. It jumps over the '',
                     '' the lazy dog and runs '', ''runs away.'']
       = ''The quick brown fox. It jumps over the lazy dog and runs away.''
   \<and> 5 + searchRange 25 \<le> 25
   \<and> (\<exists>chunks. ChunkText (Suc (length ''The quick brown fox. It jumps over the lazy dog and runs away.''))
          ''The quick brown fox. It jumps over the lazy dog and runs away.'' 25 5 = Some (Inr chunks))"
proof -
  have h1: "(0::int) \<le> 5" and h2: "(5::int) < 25" by simp_all
  have h3: "5 + searchRange 25 \<le> 25" by (simp add: searchRange_def signed_divide_int_def)
  have ev: "ChunkText 63 ''The quick brown fox. It jumps over the lazy dog and runs away.'' 25 5 =
       Some (Inr [''The quick brown fox. '', ''fox. It jumps over the '',
                  '' the lazy dog and runs '', ''runs away.''])"
    by code_simp
  from ChunkText_reconstruct [OF h1 h2] ev
  have "reconstruct 5 [''The quick brown fox. '', ''fox. It jumps over the '',
                     '' the lazy dog and runs '', ''runs away.'']
       = ''The quick brown fox. It jumps over the lazy dog and runs away.''"
    by blast
  moreover from ChunkText_reconstruct [OF h1 h2] h3
  have "\<exists>chunks. ChunkText (Suc (length ''The quick brown fox. It jumps over the lazy dog and runs away.''))
          ''The quick brown fox. It jumps over the lazy dog and runs away.'' 25 5 = Some (Inr chunks)"
    by blast
  ultimately show ?thesis using ev h1 h2 h3 by blast
qed

text \<open>
  C7. The chunker does not produce a chunk list for every text, chunk size and overlap
  with \<open>0 \<le> overlap < chunkSize\<close>, so there is nothing to reconstruct the text from.
  With a chunk size of 10 and an overlap of 2, on a text of 12 bytes, the search
  window \<open>text[start+chunkSize-searchRange:end]\<close> starts at \<open>10 - 20\<close> and the first
  pass panics. With a chunk size of 20 and an overlap of 1, on one space followed by
  twenty letters, the loop never returns.
\<close>

theorem ChunkText_returns_no_chunk_list:
  "(\<forall>fuel. ChunkText (Suc fuel) ''abcdefghijkl'' 10 2 = Some (Inl SliceBoundsOutOfRange))
   \<and> (\<forall>fuel chunks. ChunkText fuel ''abcdefghijkl'' 10 2 \<noteq> Some (Inr chunks))
   \<and> (\<forall>fuel chunks. ChunkText fuel '' aaaaaaaaaaaaaaaaaaaa'' 20 1 \<noteq> Some (Inr chunks))"
proof -
  have "chunk_step ''abcdefghijkl'' 10 2 0 = Inl SliceBoundsOutOfRange"
    by (rule chunk_step_small_chunkSize) simp_all
  then have p: "ChunkText (Suc fuel) ''abcdefghijkl'' 10 2 = Some (Inl SliceBoundsOutOfRange)" for fuel
    by (simp add: ChunkText_def)
  have q: "ChunkText fuel ''abcdefghijkl'' 10 2 \<noteq> Some (Inr chunks)" for fuel chunks
    using p by (cases fuel) (simp_all add: ChunkText_def)
  have step: "chunk_step '' aaaaaaaaaaaaaaaaaaaa'' 20 1 0 = Inr ('' '', Some 0)"
    by code_simp
  have "chunk_loop fuel '' aaaaaaaaaaaaaaaaaaaa'' 20 1 0 acc = None" for fuel acc
    by (induction fuel arbitrary: acc) (simp_all add: step)
  then have r: "ChunkText fuel '' aaaaaaaaaaaaaaaaaaaa'' 20 1 \<noteq> Some (Inr chunks)" for fuel chunks
    by (simp add: ChunkText_def)
  show ?thesis using p q r by blast
qed

section \<open>Properties of the embedding service\<close>

subsection \<open>Reassembly by index\<close>

lemma place_indexed:
  assumes "\<forall>(e, i)\<in>set entries. 0 \<le> i \<and> i < int (length embs) \<and> e = f (nat i)"
  shows "\<exists>res. place entries embs = Inr res \<and> length res = length embs \<and>
           (\<forall>k<length embs. res ! k = (if int k \<in> snd ` set entries then f k else embs ! k))"
  using assms
proof (induction entries arbitrary: embs)
  case Nil
  then show ?case by simp
next
  case (Cons entry entries)
  obtain e i where entry: "entry = (e, i)" by (cases entry)
  have i: "0 \<le> i" "i < int (length embs)" "e = f (nat i)" using Cons.prems entry by auto
  let ?embs = "embs[nat i := e]"
  have "\<forall>(e, i)\<in>set entries. 0 \<le> i \<and> i < int (length ?embs) \<and> e = f (nat i)"
    using Cons.prems by auto
  from Cons.IH [OF this] obtain res where res: "place entries ?embs = Inr res"
    "length res = length embs"
    "\<forall>k<length embs. res ! k = (if int k \<in> snd ` set entries then f k else ?embs ! k)"
    by auto
  have "place (entry # entries) embs = Inr res" using entry i res(1) by simp
  moreover have "res ! k = (if int k \<in> snd ` set (entry # entries) then f k else embs ! k)"
    if "k < length embs" for k
  proof (cases "int k = i")
    case True
    then have "nat i = k" by simp
    then show ?thesis using res(3) that entry i True by (auto simp: nth_list_update)
  next
    case False
    then have "nat i \<noteq> k" using i by linarith
    then show ?thesis using res(3) that entry False by (auto simp: nth_list_update)
  qed
  ultimately show ?case using res(2) by auto
qed

lemma entries_exact:
  assumes len: "length entries = n"
    and all: "\<forall>i<n. (g i, int i) \<in> set entries"
  shows "set entries = (\<lambda>i. (g i, int i)) ` {..<n}"
proof -
  let ?S = "(\<lambda>i. (g i, int i)) ` {..<n}"
  have inj: "inj_on (\<lambda>i. (g i, int i)) {..<n}" by (auto simp: inj_on_def)
  have "card ?S = n" using card_image [OF inj] by simp
  moreover have "?S \<subseteq> set entries" using all by auto
  moreover have "card (set entries) \<le> n" using len card_length [of entries] by simp
  ultimately show ?thesis
    by (metis List.finite_set card_seteq)
qed

lemma place_permutation:
  assumes len: "length entries = length batch"
    and all: "\<forall>i<length batch. (emb (batch ! i), int i) \<in> set entries"
  shows "place entries (replicate (length entries) []) = Inr (map emb batch)"
proof -
  let ?n = "length batch"
  have S: "set entries = (\<lambda>i. (emb (batch ! i), int i)) ` {..<?n}"
    using entries_exact [OF len, of "\<lambda>i. emb (batch ! i)"] all by simp
  have "\<forall>(e, i)\<in>set entries. 0 \<le> i \<and> i < int (length (replicate ?n ([]::float32 list)))
          \<and> e = (\<lambda>k. emb (batch ! k)) (nat i)"
    unfolding S by auto
  from place_indexed [OF this] obtain res where res:
    "place entries (replicate ?n []) = Inr res" "length res = ?n"
    "\<forall>k<?n. res ! k = (if int k \<in> snd ` set entries then emb (batch ! k) else replicate ?n [] ! k)"
    by auto
  have "res ! k = map emb batch ! k" if "k < ?n" for k
  proof -
    have "int k \<in> snd ` set entries" using all that by force
    then show ?thesis using res(3) that by simp
  qed
  then have "res = map emb batch" using res(2) by (simp add: list_eq_iff_nth_eq)
  then show ?thesis using res(1) len by simp
qed

lemma generateBatch_ok:
  assumes "embeddings_api env (http_calls w) batch = (Some \<lparr>StatusCode = 200, Data = Some entries\<rparr>, None)"
    and "length entries = length batch"
    and "\<forall>i<length batch. (emb (batch ! i), int i) \<in> set entries"
  shows "generateBatch env w batch =
           (Inr (map emb batch),
            logged (HTTPPostEmbeddings batch) (w\<lparr>http_calls := Suc (http_calls w)\<rparr>))"
proof -
  have "retry_loop env batch 0 3 None w =
          (Inr (Some \<lparr>StatusCode = 200, Data = Some entries\<rparr>),
           logged (HTTPPostEmbeddings batch) (w\<lparr>http_calls := Suc (http_calls w)\<rparr>))"
    using assms(1) by (simp add: numeral_3_eq_3)
  then show ?thesis
    using place_permutation [OF assms(2,3)] by (simp add: generateBatch_def)
qed

lemma batch_loop_ok:
  assumes api: "\<And>n batch. \<exists>entries.
        embeddings_api env n batch = (Some \<lparr>StatusCode = 200, Data = Some entries\<rparr>, None)
        \<and> length entries = length batch
        \<and> (\<forall>i<length batch. (emb (batch ! i), int i) \<in> set entries)"
  shows "fst (batch_loop env texts acc w) = Inr (acc @ map emb texts)"
proof (induction "length texts" arbitrary: texts acc w rule: less_induct)
  case less
  show ?case
  proof (cases "texts = []")
    case True
    then show ?thesis by (subst batch_loop.simps) simp
  next
    case False
    obtain entries where e:
      "embeddings_api env (http_calls w) (take 100 texts) = (Some \<lparr>StatusCode = 200, Data = Some entries\<rparr>, None)"
      "length entries = length (take 100 texts)"
      "\<forall>i<length (take 100 texts). (emb (take 100 texts ! i), int i) \<in> set entries"
      using api by blast
    let ?w1 = "logged (HTTPPostEmbeddings (take 100 texts)) (w\<lparr>http_calls := Suc (http_calls w)\<rparr>)"
    have gb: "generateBatch env w (take 100 texts) = (Inr (map emb (take 100 texts)), ?w1)"
      by (rule generateBatch_ok [OF e])
    have "length (drop 100 texts) < length texts" using False by simp
    then have "fst (batch_loop env (drop 100 texts) (acc @ map emb (take 100 texts)) ?w1)
          = Inr ((acc @ map emb (take 100 texts)) @ map emb (drop 100 texts))"
      by (rule less)
    moreover have "map emb (take 100 texts) @ map emb (drop 100 texts) = map emb texts"
      by (metis append_take_drop_id map_append)
    moreover have "batch_loop env texts acc w =
        batch_loop env (drop 100 texts) (acc @ map emb (take 100 texts)) ?w1"
      by (subst batch_loop.simps) (simp only: False gb if_False prod.case sum.case)
    ultimately show ?thesis by simp
  qed
qed

text \<open>
  C4. When the embeddings endpoint answers every request with status 200 and a body
  that holds, in any order, one entry per text of the batch, each carrying the index
  of its text, \<open>GenerateEmbeddings\<close> on a non-empty list returns exactly one vector
  per text, in input order, whatever the number of batches of 100.
\<close>

theorem GenerateEmbeddings_in_input_order:
  assumes "\<And>n batch. \<exists>entries.
        embeddings_api env n batch = (Some \<lparr>StatusCode = 200, Data = Some entries\<rparr>, None)
        \<and> length entries = length batch
        \<and> (\<forall>i<length batch. (emb (batch ! i), int i) \<in> set entries)"
    and "texts \<noteq> []"
  shows "fst (GenerateEmbeddings env w texts) = Inr (map emb texts)"
  using batch_loop_ok [OF assms(1), of texts "[]" w] assms(2)
  by (simp add: GenerateEmbeddings_def)

lemma example_api_well_formed:
  "\<exists>entries.
        embeddings_api example_env n batch = (Some \<lparr>StatusCode = 200, Data = Some entries\<rparr>, None)
        \<and> length entries = length batch
        \<and> (\<forall>i<length batch. (example_embedding (batch ! i), int i) \<in> set entries)"
proof -
  have "(example_embedding (batch ! i), int i) \<in> set (zip (map example_embedding batch) (map int [0..<length batch]))"
    if "i < length batch" for i
    using that by (force simp: set_zip)
  then show ?thesis by (simp add: example_env_def)
qed

theorem GenerateEmbeddings_in_input_order_witness:
  "[''a'', ''bb'', ''ccc''] \<noteq> []
   \<and> fst (GenerateEmbeddings example_env empty_world [''a'', ''bb'', ''ccc'']) = Inr [[1], [2], [3]]
   \<and> replicate 101 ''x'' \<noteq> []
   \<and> fst (GenerateEmbeddings example_env empty_world (replicate 101 ''x'')) = Inr (replicate 101 [1])"
proof -
  have ne: "[''a'', ''bb'', ''ccc''] \<noteq> []" "replicate 101 ''x'' \<noteq> []" by simp_all
  have "fst (GenerateEmbeddings example_env empty_world [''a'', ''bb'', ''ccc''])
          = Inr (map example_embedding [''a'', ''bb'', ''ccc''])"
    by (rule GenerateEmbeddings_in_input_order [OF example_api_well_formed ne(1)])
  moreover have "fst (GenerateEmbeddings example_env empty_world (replicate 101 ''x''))
          = Inr (map example_embedding (replicate 101 ''x''))"
    by (rule GenerateEmbeddings_in_input_order [OF example_api_well_formed ne(2)])
  ultimately show ?thesis using ne by (simp add: example_embedding_def)
qed

subsection \<open>Exhausted retries and malformed responses\<close>

lemma rate_limited_batch:
  "generateBatch rate_limited_env w [''q''] =
     (Inr [],
      w\<lparr>http_calls := Suc (Suc (Suc (http_calls w))),
        trace := trace w @ [HTTPPostEmbeddings [''q''], Sleep 1, HTTPPostEmbeddings [''q''], Sleep 2,
                            HTTPPostEmbeddings [''q''], Sleep 4]\<rparr>)"
  by (simp add: generateBatch_def rate_limited_env_def example_env_def numeral_3_eq_3 logged_def)

text \<open>
  C5. Against an endpoint that answers 429 to all three attempts, \<open>resp\<close> is not
  \<open>nil\<close> when the retry loop ends, so the check for "no response after retries" does
  not fire: the body of the last 429 answer is decoded, it holds no entry, and
  \<open>GenerateEmbeddings\<close> returns an empty list and no error, after sleeping 1, 2 and 4
  seconds. Against an endpoint that gives both entries of a two-text batch the index
  0, it returns the second vector in place of the first and a \<open>nil\<close> vector in place
  of the second, and no error.
\<close>

theorem GenerateEmbeddings_empty_success:
  "fst (GenerateEmbeddings rate_limited_env w [''q'']) = Inr []
   \<and> trace (snd (GenerateEmbeddings rate_limited_env w [''q''])) =
       trace w @ [HTTPPostEmbeddings [''q''], Sleep 1, HTTPPostEmbeddings [''q''], Sleep 2,
                  HTTPPostEmbeddings [''q''], Sleep 4]
   \<and> fst (GenerateEmbeddings duplicate_index_env w [''a'', ''bb'']) = Inr [[2], []]"
proof -
  have a: "batch_loop rate_limited_env [''q''] [] w =
     (Inr [],
      w\<lparr>http_calls := Suc (Suc (Suc (http_calls w))),
        trace := trace w @ [HTTPPostEmbeddings [''q''], Sleep 1, HTTPPostEmbeddings [''q''], Sleep 2,
                            HTTPPostEmbeddings [''q''], Sleep 4]\<rparr>)"
    by (subst batch_loop.simps, simp add: rate_limited_batch, subst batch_loop.simps, simp)
  have b: "generateBatch duplicate_index_env w [''a'', ''bb''] =
     (Inr [[2], []], logged (HTTPPostEmbeddings [''a'', ''bb'']) (w\<lparr>http_calls := Suc (http_calls w)\<rparr>))"
    by (simp add: generateBatch_def duplicate_index_env_def example_env_def numeral_3_eq_3
        example_embedding_def)
  have c: "fst (batch_loop duplicate_index_env [''a'', ''bb''] [] w) = Inr [[2], []]"
    by (subst batch_loop.simps, simp add: b, subst batch_loop.simps, simp)
  show ?thesis using a c by (simp add: GenerateEmbeddings_def)
qed

section \<open>Properties of the query service\<close>

lemma example_embeddings_single:
  "GenerateEmbeddings example_env w [q] =
     (Inr [example_embedding q],
      w\<lparr>http_calls := Suc (http_calls w), trace := trace w @ [HTTPPostEmbeddings [q]]\<rparr>)"
proof -
  have "generateBatch example_env w [q] =
     (Inr [example_embedding q],
      w\<lparr>http_calls := Suc (http_calls w), trace := trace w @ [HTTPPostEmbeddings [q]]\<rparr>)"
    by (simp add: generateBatch_def example_env_def numeral_3_eq_3 logged_def)
  then have "batch_loop example_env [q] [] w =
     (Inr [example_embedding q],
      w\<lparr>http_calls := Suc (http_calls w), trace := trace w @ [HTTPPostEmbeddings [q]]\<rparr>)"
    by (subst batch_loop.simps, simp, subst batch_loop.simps, simp)
  then show ?thesis by (simp add: GenerateEmbeddings_def)
qed

text \<open>
  C1. \<open>Search\<close> returns its "not fully implemented yet" error for every owner,
  vector and limit, so \<open>Query\<close> never returns an answer: it fails either at the
  question's embedding or at the search. For the owner \<open>u1\<close>, who has no collection,
  and a working embeddings endpoint, the error is "failed to search vectors".
\<close>

theorem Query_never_answers:
  "fst (Search env w userID vector limit) = Inl (Errorf ''search not fully implemented yet'')
   \<and> isl (fst (Query env w userID question))
   \<and> collections empty_world = []
   \<and> fst (Query example_env empty_world ''u1'' ''What is the return policy?'') =
       Inl (Wrapf ''failed to search vectors'' (Errorf ''search not fully implemented yet''))"
proof -
  have s: "fst (Search env w userID vector limit) = Inl (Errorf ''search not fully implemented yet'')"
    for env w userID vector limit
    by (simp add: Search_def)
  have q: "isl (fst (Query env w userID question))"
    by (simp add: Query_def Search_def split: prod.splits sum.splits)
  have "fst (Query example_env empty_world ''u1'' ''What is the return policy?'') =
       Inl (Wrapf ''failed to search vectors'' (Errorf ''search not fully implemented yet''))"
    by (simp add: Query_def GenerateEmbedding_def Search_def example_embeddings_single)
  moreover have "collections empty_world = []" by (simp add: empty_world_def)
  ultimately show ?thesis using s q by blast
qed

section \<open>Properties of the document service\<close>

subsection \<open>Validation\<close>

text \<open>
  C9. An upload whose lower-cased extension is not one of \<open>.pdf\<close>, \<open>.txt\<close>,
  \<open>.md\<close>, \<open>.json\<close>, \<open>.csv\<close>, or whose declared size exceeds 10 MB, is rejected
  with an error and the state is returned as it was: no call on the file, the
  embeddings endpoint, the storage, the database or the vector index was made.
\<close>

theorem UploadDocument_rejects_before_io:
  assumes "ToLower env (Ext (HeaderFilename file)) \<notin> set allowedTypes \<or> Size file > maxSize"
  shows "\<exists>msg. UploadDocument env w userID file = (Inl (Errorf msg), w)"
  using assms by (auto simp: UploadDocument_def Let_def)

theorem UploadDocument_rejects_before_io_witness:
  "ToLower example_env (Ext ''setup.exe'') \<notin> set allowedTypes
   \<and> UploadDocument example_env empty_world ''u1''
        \<lparr>HeaderFilename = ''setup.exe'', Size = 1024, Content = ''MZ''\<rparr>
       = (Inl (Errorf ''unsupported file type''), empty_world)
   \<and> (10485761::int) > maxSize
   \<and> UploadDocument example_env empty_world ''u1''
        \<lparr>HeaderFilename = ''big.pdf'', Size = 10485761, Content = ''%PDF''\<rparr>
       = (Inl (Errorf ''file too large (max 10MB)''), empty_world)"
proof -
  have e1: "ToLower example_env (Ext ''setup.exe'') = ''.exe''"
    by (simp add: example_env_def ToLowerASCII_def Ext_def)
  have e2: "ToLower example_env (Ext ''big.pdf'') = ''.pdf''"
    by (simp add: example_env_def ToLowerASCII_def Ext_def)
  have h1: "ToLower example_env (Ext ''setup.exe'') \<notin> set allowedTypes"
    unfolding e1 by (simp add: allowedTypes_def)
  have h2: "(10485761::int) > maxSize" by (simp add: maxSize_def)
  from UploadDocument_rejects_before_io
         [of example_env "\<lparr>HeaderFilename = ''setup.exe'', Size = 1024, Content = ''MZ''\<rparr>"
             empty_world "''u1''"] h1
  have "UploadDocument example_env empty_world ''u1''
        \<lparr>HeaderFilename = ''setup.exe'', Size = 1024, Content = ''MZ''\<rparr>
       = (Inl (Errorf ''unsupported file type''), empty_world)"
    by (auto simp: UploadDocument_def Let_def)
  moreover from UploadDocument_rejects_before_io
         [of example_env "\<lparr>HeaderFilename = ''big.pdf'', Size = 10485761, Content = ''%PDF''\<rparr>"
             empty_world "''u1''"] h2
  have "UploadDocument example_env empty_world ''u1''
        \<lparr>HeaderFilename = ''big.pdf'', Size = 10485761, Content = ''%PDF''\<rparr>
       = (Inl (Errorf ''file too large (max 10MB)''), empty_world)"
    by (auto simp: UploadDocument_def Let_def e2 allowedTypes_def)
  ultimately show ?thesis using h1 h2 by blast
qed

subsection \<open>Ownership\<close>

text \<open>
  C10. When the stored owner of a document differs from the caller, \<open>GetDocument\<close>
  returns an error, "unauthorized" unless the lookup itself failed, and never the
  document; \<open>DeleteDocument\<close> returns the same error, and the only thing it has done
  is the lookup: rows, objects and collections are as before.
\<close>

theorem other_users_document_is_protected:
  assumes "find (\<lambda>d. ID d = documentID) (documents w) = Some doc"
    and "UserID doc \<noteq> userID"
  shows "GetDocument env w userID documentID =
           (Inl (if fault env (trace w @ [DBSelectDocument documentID])
                 then Wrapf ''failed to get document'' (Errorf ''sql'')
                 else Errorf ''unauthorized''),
            w\<lparr>trace := trace w @ [DBSelectDocument documentID]\<rparr>)
       \<and> DeleteDocument env w userID documentID =
           (Some (if fault env (trace w @ [DBSelectDocument documentID])
                  then Wrapf ''failed to get document'' (Errorf ''sql'')
                  else Errorf ''unauthorized''),
            w\<lparr>trace := trace w @ [DBSelectDocument documentID]\<rparr>)"
  using assms
  by (simp add: DeleteDocument_def GetDocument_def DocumentRepository_GetByID_def call_def)

subsection \<open>The example upload\<close>

lemma ChunkText_500_50_returns:
  "\<exists>chunks. ChunkText (Suc (length text)) text 500 50 = Some (Inr chunks)"
proof (cases "length text = 0 \<or> int (length text) \<le> 500")
  case True
  then show ?thesis by (auto simp: ChunkText_def)
next
  case False
  have sr: "(50::int) + searchRange 500 \<le> 500"
    by (simp add: searchRange_def signed_divide_int_def)
  have "\<exists>res. chunk_loop (Suc (length text)) text 500 50 0 [] = Some (Inr res)"
    by (rule chunk_loop_returns [OF _ _ sr]) simp_all
  then show ?thesis using False by (simp add: ChunkText_def)
qed

lemma example_env_fields:
  "fault example_env t = False"
  "Sum256 example_env content = ''sha256-of-'' @ content"
  "uuid_generate_v4 example_env n = ''doc-'' @ Itoa n"
  by (simp_all add: example_env_def)

lemma Itoa_0: "Itoa 0 = ''0''"
  by code_simp

lemma example_ext: "ToLower example_env (Ext ''notes.txt'') = ''.txt''"
  by (simp add: example_env_def ToLowerASCII_def Ext_def)

lemma example_chunks: "ChunkText fuel ''hello'' 500 50 = Some (Inr [''hello''])"
  by (simp add: ChunkText_def)

lemma example_embeddings_hello:
  "GenerateEmbeddings example_env w [''hello''] =
     (Inr [[5]], w\<lparr>http_calls := Suc (http_calls w),
                    trace := trace w @ [HTTPPostEmbeddings [''hello'']]\<rparr>)"
  by (simp add: example_embeddings_single example_embedding_def)

lemma first_upload:
  "UploadDocument example_env empty_world ''u2'' example_file =
     (Inl (Wrapf ''failed to insert vectors'' (Errorf ''insert vectors not fully implemented yet'')),
      world_after_upload)"
  by (simp add: UploadDocument_def example_file_def example_ext example_chunks allowedTypes_def
      maxSize_def Let_def call_def example_env_fields example_embeddings_hello empty_world_def
      UploadFile_def DocumentRepository_Create_def EnsureCollection_def GetCollectionName_def
      GetDimensions_def InsertVectors_def logged_def Itoa_0 world_after_upload_def
      stored_document_def)

lemma second_upload:
  "UploadDocument example_env world_after_upload ''u2'' example_file =
     (Inl (Wrapf ''failed to create document record''
            (Wrapf ''failed to create document'' (Errorf ''sql''))),
      world_after_upload
        \<lparr>objects := [''u2/sha256-of-hello/notes.txt'' \<mapsto> ''hello''],
         http_calls := 2,
         trace := trace world_after_upload @
           [FileOpen ''notes.txt'', FileReadAll ''notes.txt'', HTTPPostEmbeddings [''hello''],
            StorageUploadFile ''u2/sha256-of-hello/notes.txt'' ''hello'',
            DBInsertDocument ''u2'' ''sha256-of-hello'']\<rparr>)"
  by (simp add: UploadDocument_def example_file_def example_ext example_chunks allowedTypes_def
      maxSize_def Let_def call_def example_env_fields example_embeddings_hello
      UploadFile_def DocumentRepository_Create_def world_after_upload_def
      stored_document_def)

theorem other_users_document_is_protected_witness:
  "find (\<lambda>d. ID d = ''doc-0'') (documents world_after_upload) = Some stored_document
   \<and> UserID stored_document \<noteq> ''u1''
   \<and> GetDocument example_env world_after_upload ''u1'' ''doc-0'' =
        (Inl (Errorf ''unauthorized''),
         world_after_upload\<lparr>trace := trace world_after_upload @ [DBSelectDocument ''doc-0'']\<rparr>)
   \<and> DeleteDocument example_env world_after_upload ''u1'' ''doc-0'' =
        (Some (Errorf ''unauthorized''),
         world_after_upload\<lparr>trace := trace world_after_upload @ [DBSelectDocument ''doc-0'']\<rparr>)"
proof -
  have h1: "find (\<lambda>d. ID d = ''doc-0'') (documents world_after_upload) = Some stored_document"
    by (simp add: world_after_upload_def stored_document_def)
  have h2: "UserID stored_document \<noteq> ''u1''"
    by (simp add: stored_document_def)
  from other_users_document_is_protected [OF h1 h2, of example_env]
  show ?thesis using h1 h2 by (simp add: example_env_fields)
qed

subsection \<open>Deletion\<close>





subsection \<open>Uploading the same bytes again\<close>

lemma same_index_refl: "same_index w w"
  by (simp add: same_index_def)

lemma same_index_trans: "same_index w w1 \<Longrightarrow> same_index w1 w2 \<Longrightarrow> same_index w w2"
  by (simp add: same_index_def)

lemma retry_loop_same_index:
  "retry_loop env texts attempt remaining resp w = (r, w') \<Longrightarrow> same_index w w'"
proof (induction remaining arbitrary: attempt resp w)
  case 0
  then show ?case by (auto simp: same_index_def)
next
  case (Suc remaining)
  let ?w1 = "logged (HTTPPostEmbeddings texts) (w\<lparr>http_calls := Suc (http_calls w)\<rparr>)"
  have w1: "same_index w ?w1" by (simp add: same_index_def logged_def)
  have w2: "same_index w (logged (Sleep (2 ^ attempt)) ?w1)" by (simp add: same_index_def logged_def)
  obtain resp' err where api: "embeddings_api env (http_calls w) texts = (resp', err)"
    by (cases "embeddings_api env (http_calls w) texts")
  show ?case
  proof (cases "(err = None \<and> resp' = None) \<or> (err = None \<and> map_option StatusCode resp' = Some 200)
                 \<or> map_option StatusCode resp' \<noteq> Some 429")
    case True
    then have "w' = ?w1"
      using Suc.prems api by (auto simp: Let_def split: if_splits option.splits)
    then show ?thesis using w1 by simp
  next
    case False
    then have "retry_loop env texts (Suc attempt) remaining resp' (logged (Sleep (2 ^ attempt)) ?w1) = (r, w')"
      using Suc.prems api by (auto simp: Let_def split: if_splits)
    from Suc.IH [OF this] show ?thesis using w2 same_index_trans by blast
  qed
qed

lemma generateBatch_same_index:
  "generateBatch env w texts = (r, w') \<Longrightarrow> same_index w w'"
proof -
  assume g: "generateBatch env w texts = (r, w')"
  obtain r1 w1 where rl: "retry_loop env texts 0 3 None w = (r1, w1)"
    by (cases "retry_loop env texts 0 3 None w")
  then have "w' = w1"
    using g by (auto simp: generateBatch_def split: sum.splits option.splits)
  then show ?thesis using retry_loop_same_index [OF rl] by simp
qed

lemma batch_loop_same_index:
  "batch_loop env texts acc w = (r, w') \<Longrightarrow> same_index w w'"
proof (induction "length texts" arbitrary: texts acc w rule: less_induct)
  case less
  show ?case
  proof (cases "texts = []")
    case True
    then have "w' = w" using less.prems by (subst (asm) batch_loop.simps) simp
    then show ?thesis by (simp add: same_index_refl)
  next
    case False
    obtain r1 w1 where gb: "generateBatch env w (take 100 texts) = (r1, w1)"
      by (cases "generateBatch env w (take 100 texts)")
    note s1 = generateBatch_same_index [OF gb]
    show ?thesis
    proof (cases r1)
      case (Inl e)
      then have "w' = w1" using less.prems False gb by (subst (asm) batch_loop.simps) simp
      then show ?thesis using s1 by simp
    next
      case (Inr embeddings)
      then have "batch_loop env (drop 100 texts) (acc @ embeddings) w1 = (r, w')"
        using less.prems False gb by (subst (asm) batch_loop.simps) simp
      moreover have "length (drop 100 texts) < length texts" using False by simp
      ultimately have "same_index w1 w'" using less.hyps by blast
      then show ?thesis using s1 same_index_trans by blast
    qed
  qed
qed

lemma GenerateEmbeddings_same_index:
  "GenerateEmbeddings env w texts = (r, w') \<Longrightarrow> same_index w w'"
  using batch_loop_same_index [of env texts "[]" w r w']
  by (auto simp: GenerateEmbeddings_def same_index_refl split: if_splits)

lemma call_same_index:
  "\<not> is_vector_event ev \<Longrightarrow> call env ev w = (failed, w') \<Longrightarrow> same_index w w'"
  by (auto simp: call_def same_index_def)

lemma UploadFile_same_index: "UploadFile env w key content = (r, w') \<Longrightarrow> same_index w w'"
  by (auto simp: UploadFile_def call_def same_index_def Let_def split: if_splits)

lemma Create_duplicate:
  assumes "list_ex (\<lambda>d. UserID d = UserID doc \<and> FileHash d = FileHash doc) (documents w)"
  shows "DocumentRepository_Create env w doc =
           ((Some (Wrapf ''failed to create document'' (Errorf ''sql'')), doc),
            w\<lparr>trace := trace w @ [DBInsertDocument (UserID doc) (FileHash doc)]\<rparr>)"
  using assms by (simp add: DocumentRepository_Create_def call_def Let_def)

text \<open>
  C2 (as amended). When a row with the same owner and the same content hash exists,
  \<open>UploadDocument\<close> returns an error, adds no row, creates no collection and makes no
  call on the vector index or the vector repository.
\<close>

theorem UploadDocument_duplicate:
  assumes dup: "list_ex (\<lambda>d. UserID d = userID \<and> FileHash d = Sum256 env (Content file)) (documents w)"
  shows "isl (fst (UploadDocument env w userID file))
       \<and> documents (snd (UploadDocument env w userID file)) = documents w
       \<and> collections (snd (UploadDocument env w userID file)) = collections w
       \<and> filter is_vector_event (trace (snd (UploadDocument env w userID file)))
           = filter is_vector_event (trace w)"
proof -
  let ?name = "HeaderFilename file"
  let ?ext = "ToLower env (Ext ?name)"
  let ?w1 = "w\<lparr>trace := trace w @ [FileOpen ?name]\<rparr>"
  let ?w2 = "w\<lparr>trace := trace w @ [FileOpen ?name, FileReadAll ?name]\<rparr>"
  let ?hash = "Sum256 env (Content file)"
  let ?path = "userID @ ''/'' @ ?hash @ ''/'' @ ?name"
  let ?res = "UploadDocument env w userID file"
  have s1: "same_index w ?w1" and s2: "same_index w ?w2" by (simp_all add: same_index_def)
  have "isl (fst ?res) \<and> same_index w (snd ?res)"
  proof (cases "?ext \<notin> set allowedTypes \<or> Size file > maxSize")
    case True
    then have "isl (fst ?res) \<and> snd ?res = w"
      by (auto simp: UploadDocument_def Let_def)
    then show ?thesis by (simp add: same_index_refl)
  next
    case False
    then have valid: "?ext \<in> set allowedTypes" "\<not> Size file > maxSize" by simp_all
    show ?thesis
    proof (cases "fault env (trace w @ [FileOpen ?name])")
      case True
      then have "isl (fst ?res) \<and> snd ?res = ?w1"
        using valid by (simp add: UploadDocument_def Let_def call_def)
      then show ?thesis using s1 by simp
    next
      case False
      note open_ok = False
      show ?thesis
      proof (cases "fault env (trace ?w1 @ [FileReadAll ?name])")
        case True
        then have "isl (fst ?res) \<and> snd ?res = ?w2"
          using valid open_ok by (simp add: UploadDocument_def Let_def call_def)
        then show ?thesis using s2 by simp
      next
        case False
        note read_ok = False
        have ext2: "?ext \<in> set [''.txt'', ''.md'', ''.json'', ''.csv'', ''.pdf'']"
          using valid(1) by (auto simp: allowedTypes_def)
        note pre = valid open_ok read_ok ext2
        note defs = UploadDocument_def Let_def call_def
        show ?thesis
        proof (cases "ChunkText (Suc (length (Content file))) (Content file) 500 50")
          case None
          then have "?res = (Inl Diverged, ?w2)" using pre by (simp add: defs)
          then show ?thesis using s2 by simp
        next
          case (Some cr)
          show ?thesis
          proof (cases cr)
            case (Inl p)
            then have "?res = (Inl (Panic p), ?w2)" using pre Some by (simp add: defs)
            then show ?thesis using s2 by simp
          next
            case (Inr chunks)
            show ?thesis
            proof (cases "length chunks = 0")
              case True
              then have "?res = (Inl (Errorf ''no text content found in document''), ?w2)"
                using pre Some Inr by (simp add: defs)
              then show ?thesis using s2 by simp
            next
              case False
              note nonempty = False
              obtain r3 w3 where ge: "GenerateEmbeddings env ?w2 chunks = (r3, w3)"
                by (cases "GenerateEmbeddings env ?w2 chunks")
              have s3: "same_index w w3"
                using GenerateEmbeddings_same_index [OF ge] s2 same_index_trans by blast
              show ?thesis
              proof (cases r3)
                case (Inl e)
                then have "?res = (Inl (wrap ''failed to generate embeddings'' e), w3)"
                  using pre Some \<open>cr = Inr chunks\<close> nonempty ge by (simp add: defs)
                then show ?thesis using s3 by simp
              next
                case (Inr embeddings)
                note emb = Inr
                obtain r4 w4 where up: "UploadFile env w3 ?path (Content file) = (r4, w4)"
                  by (cases "UploadFile env w3 ?path (Content file)")
                have s4: "same_index w w4"
                  using UploadFile_same_index [OF up] s3 same_index_trans by blast
                show ?thesis
                proof (cases r4)
                  case (Some e)
                  then have "?res = (Inl (wrap ''failed to upload file'' e), w4)"
                    using pre \<open>ChunkText (Suc (length (Content file))) (Content file) 500 50 = Some cr\<close>
                      \<open>cr = Inr chunks\<close> nonempty ge emb up by (simp add: defs)
                  then show ?thesis using s4 by simp
                next
                  case None
                  let ?doc = "\<lparr>ID = [], UserID = userID, Filename = ?name, FileType = ?ext,
                                  FileSize = Size file, FileHash = ?hash, StoragePath = ?path,
                                  TotalChunks = int (length chunks), UploadDate = 0\<rparr>"
                  let ?w5 = "w4\<lparr>trace := trace w4 @ [DBInsertDocument userID ?hash]\<rparr>"
                  have "list_ex (\<lambda>d. UserID d = UserID ?doc \<and> FileHash d = FileHash ?doc) (documents w4)"
                    using dup s4 by (simp add: same_index_def)
                  from Create_duplicate [OF this, of env]
                  have cr: "DocumentRepository_Create env w4 ?doc =
                      ((Some (Wrapf ''failed to create document'' (Errorf ''sql'')), ?doc), ?w5)"
                    by simp
                  have "?res = (Inl (wrap ''failed to create document record''
                                      (Wrapf ''failed to create document'' (Errorf ''sql''))), ?w5)"
                    using pre \<open>ChunkText (Suc (length (Content file))) (Content file) 500 50 = Some cr\<close>
                      \<open>cr = Inr chunks\<close> nonempty ge emb up None cr by (simp add: defs)
                  moreover have "same_index w ?w5" using s4 by (simp add: same_index_def)
                  ultimately show ?thesis by simp
                qed
              qed
            qed
          qed
        qed
      qed
    qed
  qed
  then show ?thesis by (simp add: same_index_def)
qed

theorem UploadDocument_duplicate_witness:
  "list_ex (\<lambda>d. UserID d = ''u2'' \<and> FileHash d = Sum256 example_env (Content example_file))
     (documents world_after_upload)
   \<and> isl (fst (UploadDocument example_env world_after_upload ''u2'' example_file))
   \<and> documents (snd (UploadDocument example_env world_after_upload ''u2'' example_file))
       = [stored_document]
   \<and> collections (snd (UploadDocument example_env world_after_upload ''u2'' example_file))
       = [''user_u2_docs'']
   \<and> filter is_vector_event (trace (snd (UploadDocument example_env world_after_upload ''u2'' example_file)))
       = filter is_vector_event (trace world_after_upload)"
proof -
  have h: "list_ex (\<lambda>d. UserID d = ''u2'' \<and> FileHash d = Sum256 example_env (Content example_file))
     (documents world_after_upload)"
    by (simp add: world_after_upload_def stored_document_def example_env_fields example_file_def)
  have d: "documents world_after_upload = [stored_document]"
    "collections world_after_upload = [''user_u2_docs'']"
    by (simp_all add: world_after_upload_def)
  from UploadDocument_duplicate [OF h] show ?thesis using h d by simp
qed

text \<open>
  The error is not a duplicate signal, and the upload is processed again before it is
  refused: after a first upload of the example file, the second upload of the same
  bytes opens and reads the file, calls the embeddings endpoint, writes the object once
  more and only then fails, at the insert of the row.
\<close>

theorem UploadDocument_duplicate_counterexample:
  "snd (UploadDocument example_env empty_world ''u2'' example_file) = world_after_upload
   \<and> fst (UploadDocument example_env world_after_upload ''u2'' example_file)
       = Inl (Wrapf ''failed to create document record''
               (Wrapf ''failed to create document'' (Errorf ''sql'')))
   \<and> trace (snd (UploadDocument example_env world_after_upload ''u2'' example_file))
       = trace world_after_upload @
           [FileOpen ''notes.txt'', FileReadAll ''notes.txt'', HTTPPostEmbeddings [''hello''],
            StorageUploadFile ''u2/sha256-of-hello/notes.txt'' ''hello'',
            DBInsertDocument ''u2'' ''sha256-of-hello'']"
  by (simp add: first_upload second_upload)

end
